theory Spec2Isabelle
  imports Complex_Main "HOL-Library.AList" "HOL-Library.Log_Nat" "HOL-Library.Multiset"
begin

section \<open>Values shared by all operations\<close>

text \<open>
  A thrown JavaScript \<open>Error\<close> is a value carrying its message; a function that may
  throw returns \<open>error + 'a\<close>, with \<open>Inl\<close> for the thrown error.
\<close>

datatype error = Error string

fun message :: "error \<Rightarrow> string" where
  "message (Error m) = m"

text \<open>
  Optional fields (\<open>undefined\<close>, \<open>null\<close>) are \<open>None\<close>. JavaScript's truthiness test on
  an optional string is false for a missing value and for the empty string, on an
  optional boolean it is false for a missing value and for \<open>false\<close>.
\<close>

fun truthy :: "string option \<Rightarrow> bool" where
  "truthy None = False"
| "truthy (Some s) = (s \<noteq> [])"

fun truthyB :: "bool option \<Rightarrow> bool" where
  "truthyB None = False"
| "truthyB (Some b) = b"

text \<open>
  A \<open>Date\<close> is its instant in milliseconds since the epoch, \<open>None\<close> for an Invalid Date
  (whose time value is NaN). The constructor \<open>new Date(str)\<close> is a parameter
  \<open>parse :: string \<Rightarrow> date\<close> of the operations that use it.
\<close>

type_synonym date = "int option"

record Board =
  board_id :: string

record KList =
  list_id :: string
  list_name :: "string option"

record Card =
  card_id :: string
  card_listId :: "string option"
  card_name :: string
  card_createdAt :: "string option"
  card_updatedAt :: "string option"
  card_isCompleted :: "bool option"
  card_labelIds :: "string list option"

record Task =
  task_id :: string
  task_isCompleted :: bool
  task_createdAt :: "string option"
  task_updatedAt :: "string option"

record Comment =
  comment_id :: string
  comment_userId :: "string option"
  comment_text :: "string option"
  comment_data_text :: "string option"
  comment_createdAt :: "string option"

record Label =
  label_id :: string
  label_name :: "string option"

text \<open>
  The accessors the two aggregators call. Reads are taken against a snapshot of the
  backing service, so each accessor is a function from the parent id to the collection
  or the error it throws. \<open>getBoards\<close> and \<open>getBoard\<close> live in
  \<open>operations/boards\<close>; \<open>getBoard\<close> may also answer with no board.
\<close>

record accessors =
  getBoards :: "string \<Rightarrow> error + Board list"
  getBoard :: "string \<Rightarrow> error + Board option"
  getLists :: "string \<Rightarrow> error + KList list"
  getCards :: "string \<Rightarrow> error + Card list"
  getTasks :: "string \<Rightarrow> error + Task list"
  getComments :: "string \<Rightarrow> error + Comment list"
  getLabels :: "string \<Rightarrow> error + Label list"

section \<open>The activity feed (tools/activity-feed.ts)\<close>

datatype EntryType =
  card_created | card_updated | card_completed | comment_added | task_created | task_completed

record ActivityEntry =
  timestamp :: "string option"
  etype :: EntryType
  boardId :: string
  listId :: "string option"
  cardId :: string
  taskId :: "string option"
  commentId :: "string option"
  userId :: "string option"
  preview :: "string option"

record AffectedCard =
  ac_cardId :: string
  ac_cardName :: string
  ac_boardId :: string
  ac_listId :: string

text \<open>
  The cap \<open>maxComments\<close> is a number: any finite one, so a rational, which may be
  negative or fractional.
\<close>

record GetActivityFeedParams =
  projectId :: string
  since :: "string option"
  until :: "string option"
  maxComments :: "rat option"

record Summary =
  totalChanges :: nat
  s_newCards :: nat
  s_updatedCards :: nat
  s_completedCards :: nat
  s_newComments :: nat
  s_newTasks :: nat
  s_completedTasks :: nat

text \<open>
  The query block of the result holds the two instants; the code renders them with
  \<open>toISOString\<close>, which throws on an Invalid Date.
\<close>

record ActivityFeedResult =
  query_projectId :: string
  query_from :: int
  query_to :: int
  summary :: Summary
  r_changes :: "ActivityEntry list"
  affectedCards :: "AffectedCard list"
  userIds :: "string list"

definition truncateText :: "string \<Rightarrow> nat \<Rightarrow> string" where
  "truncateText text maxLength =
     (if length text \<le> maxLength then text else take (maxLength - 3) text @ ''...'')"

definition isWithinRange :: "(string \<Rightarrow> date) \<Rightarrow> string option \<Rightarrow> date \<Rightarrow> date \<Rightarrow> bool" where
  "isWithinRange parse dateStr from to =
     (if \<not> truthy dateStr then False
      else (case (parse (the dateStr), from, to) of
              (Some d, Some f, Some t) \<Rightarrow> f \<le> d \<and> d \<le> t
            | _ \<Rightarrow> False))"

text \<open>
  The mutable locals of \<open>getActivityFeed\<close>: the entries pushed so far, the
  insertion-ordered \<open>Map\<close> of affected cards, the insertion-ordered \<open>Set\<close> of user ids,
  and the six counters.
\<close>

record feed_state =
  changes :: "ActivityEntry list"
  affectedCardsMap :: "(string \<times> AffectedCard) list"
  userIdsSet :: "string list"
  newCards :: nat
  updatedCards :: nat
  completedCards :: nat
  newComments :: nat
  newTasks :: nat
  completedTasks :: nat

definition initial :: feed_state where
  "initial = \<lparr>changes = [], affectedCardsMap = [], userIdsSet = [], newCards = 0,
     updatedCards = 0, completedCards = 0, newComments = 0, newTasks = 0, completedTasks = 0\<rparr>"

text \<open>\<open>Set.prototype.add\<close>: a new element goes to the end, a present one is left alone.\<close>

definition setAdd :: "'a \<Rightarrow> 'a list \<Rightarrow> 'a list" where
  "setAdd x xs = (if x \<in> set xs then xs else xs @ [x])"

text \<open>
  The card block (source lines 132 to 169). The boolean of the result is
  \<open>cardHasChanges\<close>, which starts as false for every card.
\<close>

definition cardChange ::
  "(string \<Rightarrow> date) \<Rightarrow> date \<Rightarrow> date \<Rightarrow> string \<Rightarrow> string \<Rightarrow> Card \<Rightarrow> feed_state \<Rightarrow> bool \<times> feed_state" where
  "cardChange parse from to bId lId crd st =
     (if isWithinRange parse (card_createdAt crd) from to then
        (True, st\<lparr>changes := changes st @
            [\<lparr>timestamp = card_createdAt crd, etype = card_created, boardId = bId,
              listId = Some lId, cardId = card_id crd, taskId = None, commentId = None,
              userId = None, preview = None\<rparr>],
          newCards := newCards st + 1\<rparr>)
      else if isWithinRange parse (card_updatedAt crd) from to then
        (if truthyB (card_isCompleted crd) \<and> truthy (card_updatedAt crd) then
           (True, st\<lparr>changes := changes st @
               [\<lparr>timestamp = card_updatedAt crd, etype = card_completed, boardId = bId,
                 listId = Some lId, cardId = card_id crd, taskId = None, commentId = None,
                 userId = None, preview = None\<rparr>],
             completedCards := completedCards st + 1\<rparr>)
         else
           (True, st\<lparr>changes := changes st @
               [\<lparr>timestamp = card_updatedAt crd, etype = card_updated, boardId = bId,
                 listId = Some lId, cardId = card_id crd, taskId = None, commentId = None,
                 userId = None, preview = None\<rparr>],
             updatedCards := updatedCards st + 1\<rparr>))
      else (False, st))"

text \<open>The loop over the tasks of a card (source lines 174 to 198).\<close>

fun taskChanges ::
  "(string \<Rightarrow> date) \<Rightarrow> date \<Rightarrow> date \<Rightarrow> string \<Rightarrow> string \<Rightarrow> string \<Rightarrow> Task list \<Rightarrow> bool \<times> feed_state \<Rightarrow> bool \<times> feed_state" where
  "taskChanges parse from to bId lId cId [] acc = acc"
| "taskChanges parse from to bId lId cId (task # tasks) (h, st) =
     taskChanges parse from to bId lId cId tasks
       (if isWithinRange parse (task_createdAt task) from to then
          (True, st\<lparr>changes := changes st @
              [\<lparr>timestamp = task_createdAt task, etype = task_created, boardId = bId,
                listId = Some lId, cardId = cId, taskId = Some (task_id task),
                commentId = None, userId = None, preview = None\<rparr>],
            newTasks := newTasks st + 1\<rparr>)
        else if task_isCompleted task \<and> isWithinRange parse (task_updatedAt task) from to then
          (True, st\<lparr>changes := changes st @
              [\<lparr>timestamp = task_updatedAt task, etype = task_completed, boardId = bId,
                listId = Some lId, cardId = cId, taskId = Some (task_id task),
                commentId = None, userId = None, preview = None\<rparr>],
            completedTasks := completedTasks st + 1\<rparr>)
        else (h, st))"

text \<open>
  The text shown for a comment: \<open>comment.text || comment.data?.text || ""\<close>.
\<close>

definition commentText :: "Comment \<Rightarrow> string" where
  "commentText c =
     (if truthy (comment_text c) then the (comment_text c)
      else if truthy (comment_data_text c) then the (comment_data_text c)
      else [])"

text \<open>
  One in-window comment (source lines 208 to 224): the entry is pushed only while the
  counter is below the cap, the user id is added when it is truthy, the counter always
  grows.
\<close>

definition commentStep ::
  "rat \<Rightarrow> string \<Rightarrow> string \<Rightarrow> string \<Rightarrow> Comment \<Rightarrow> feed_state \<Rightarrow> feed_state" where
  "commentStep maxC bId lId cId c st =
     (let st1 = (if of_nat (newComments st) < maxC then
                   st\<lparr>changes := changes st @
                     [\<lparr>timestamp = comment_createdAt c, etype = comment_added, boardId = bId,
                       listId = Some lId, cardId = cId, taskId = None,
                       commentId = Some (comment_id c), userId = comment_userId c,
                       preview = Some (truncateText (commentText c) 100)\<rparr>]\<rparr>
                 else st);
          st2 = (if truthy (comment_userId c) then
                   st1\<lparr>userIdsSet := setAdd (the (comment_userId c)) (userIdsSet st1)\<rparr>
                 else st1)
      in st2\<lparr>newComments := newComments st2 + 1\<rparr>)"

fun commentChanges ::
  "(string \<Rightarrow> date) \<Rightarrow> date \<Rightarrow> date \<Rightarrow> rat \<Rightarrow> string \<Rightarrow> string \<Rightarrow> string \<Rightarrow> Comment list \<Rightarrow> bool \<times> feed_state \<Rightarrow> bool \<times> feed_state" where
  "commentChanges parse from to maxC bId lId cId [] acc = acc"
| "commentChanges parse from to maxC bId lId cId (c # cs) (h, st) =
     commentChanges parse from to maxC bId lId cId cs
       (if isWithinRange parse (comment_createdAt c) from to
        then (True, commentStep maxC bId lId cId c st)
        else (h, st))"

text \<open>
  A failed fetch of the tasks or of the comments of a card is caught on the spot: the
  card then contributes no task or comment event.
\<close>

definition tasksOf :: "accessors \<Rightarrow> string \<Rightarrow> Task list" where
  "tasksOf env cId = (case getTasks env cId of Inl e \<Rightarrow> [] | Inr ts \<Rightarrow> ts)"

definition commentsOf :: "accessors \<Rightarrow> string \<Rightarrow> Comment list" where
  "commentsOf env cId = (case getComments env cId of Inl e \<Rightarrow> [] | Inr cs \<Rightarrow> cs)"

text \<open>The body of the loop over the cards of a list (source lines 125 to 240).\<close>

definition processCard ::
  "accessors \<Rightarrow> (string \<Rightarrow> date) \<Rightarrow> date \<Rightarrow> date \<Rightarrow> rat \<Rightarrow> string \<Rightarrow> string \<Rightarrow> Card \<Rightarrow> feed_state \<Rightarrow> feed_state" where
  "processCard env parse from to maxC bId lId crd st =
     (let a1 = cardChange parse from to bId lId crd st;
          a2 = taskChanges parse from to bId lId (card_id crd) (tasksOf env (card_id crd)) a1;
          a3 = commentChanges parse from to maxC bId lId (card_id crd)
                 (commentsOf env (card_id crd)) a2
      in if fst a3 then
           (snd a3)\<lparr>affectedCardsMap :=
              AList.update (card_id crd)
                \<lparr>ac_cardId = card_id crd, ac_cardName = card_name crd, ac_boardId = bId,
                  ac_listId = lId\<rparr>
                (affectedCardsMap (snd a3))\<rparr>
         else snd a3)"

fun processCards ::
  "accessors \<Rightarrow> (string \<Rightarrow> date) \<Rightarrow> date \<Rightarrow> date \<Rightarrow> rat \<Rightarrow> string \<Rightarrow> string \<Rightarrow> Card list \<Rightarrow> feed_state \<Rightarrow> feed_state" where
  "processCards env parse from to maxC bId lId [] st = st"
| "processCards env parse from to maxC bId lId (crd # cards) st =
     processCards env parse from to maxC bId lId cards
       (processCard env parse from to maxC bId lId crd st)"

text \<open>
  The loops over lists and boards. A failed \<open>getCards\<close> or \<open>getLists\<close> is not caught
  here: it leaves the loops and reaches the outer handler.
\<close>

fun processLists ::
  "accessors \<Rightarrow> (string \<Rightarrow> date) \<Rightarrow> date \<Rightarrow> date \<Rightarrow> rat \<Rightarrow> string \<Rightarrow> KList list \<Rightarrow> feed_state \<Rightarrow> error + feed_state" where
  "processLists env parse from to maxC bId [] st = Inr st"
| "processLists env parse from to maxC bId (l # ls) st =
     (case getCards env (list_id l) of
        Inl e \<Rightarrow> Inl e
      | Inr cards \<Rightarrow>
          processLists env parse from to maxC bId ls
            (processCards env parse from to maxC bId (list_id l) cards st))"

fun processBoards ::
  "accessors \<Rightarrow> (string \<Rightarrow> date) \<Rightarrow> date \<Rightarrow> date \<Rightarrow> rat \<Rightarrow> Board list \<Rightarrow> feed_state \<Rightarrow> error + feed_state" where
  "processBoards env parse from to maxC [] st = Inr st"
| "processBoards env parse from to maxC (b # bs) st =
     (case getLists env (board_id b) of
        Inl e \<Rightarrow> Inl e
      | Inr ls \<Rightarrow>
          (case processLists env parse from to maxC (board_id b) ls st of
             Inl e \<Rightarrow> Inl e
           | Inr st' \<Rightarrow> processBoards env parse from to maxC bs st'))"

text \<open>
  \<open>changes.sort((a, b) => time(b) - time(a))\<close>: the sort of the language is stable, so
  with a consistent comparator it yields the stable arrangement by decreasing instant.
  An entry whose timestamp does not parse would make the comparator return NaN; such an
  entry is never pushed (lemma \<open>traverse_window\<close> below), and its key here is 0.
\<close>

definition getTime :: "(string \<Rightarrow> date) \<Rightarrow> ActivityEntry \<Rightarrow> int" where
  "getTime parse e =
     (case timestamp e of
        None \<Rightarrow> 0
      | Some s \<Rightarrow> (case parse s of None \<Rightarrow> 0 | Some d \<Rightarrow> d))"

definition sortChanges :: "(string \<Rightarrow> date) \<Rightarrow> ActivityEntry list \<Rightarrow> ActivityEntry list" where
  "sortChanges parse xs = sort_key (\<lambda>e. - getTime parse e) xs"

definition windowFrom :: "(string \<Rightarrow> date) \<Rightarrow> int \<Rightarrow> GetActivityFeedParams \<Rightarrow> date" where
  "windowFrom parse now params =
     (if truthy (since params) then parse (the (since params))
      else Some (now - 24 * 60 * 60 * 1000))"

definition windowTo :: "(string \<Rightarrow> date) \<Rightarrow> int \<Rightarrow> GetActivityFeedParams \<Rightarrow> date" where
  "windowTo parse now params =
     (if truthy (until params) then parse (the (until params)) else Some now)"

definition capOf :: "GetActivityFeedParams \<Rightarrow> rat" where
  "capOf params = (case maxComments params of None \<Rightarrow> 20 | Some n \<Rightarrow> n)"

text \<open>The traversal of the project: the statements inside \<open>try\<close> before the sort.\<close>

definition traverse ::
  "accessors \<Rightarrow> (string \<Rightarrow> date) \<Rightarrow> int \<Rightarrow> GetActivityFeedParams \<Rightarrow> error + feed_state" where
  "traverse env parse now params =
     (case getBoards env (projectId params) of
        Inl e \<Rightarrow> Inl e
      | Inr boards \<Rightarrow>
          processBoards env parse (windowFrom parse now params) (windowTo parse now params)
            (capOf params) boards initial)"

definition getActivityFeed ::
  "accessors \<Rightarrow> (string \<Rightarrow> date) \<Rightarrow> int \<Rightarrow> GetActivityFeedParams \<Rightarrow> error + ActivityFeedResult" where
  "getActivityFeed env parse now params =
     (case traverse env parse now params of
        Inl e \<Rightarrow> Inl (Error (''Failed to get activity feed: '' @ message e))
      | Inr st \<Rightarrow>
          (case (windowFrom parse now params, windowTo parse now params) of
             (Some f, Some t) \<Rightarrow>
               Inr \<lparr>query_projectId = projectId params, query_from = f, query_to = t,
                    summary = \<lparr>totalChanges = length (sortChanges parse (changes st)),
                                s_newCards = newCards st,
                                s_updatedCards = updatedCards st,
                                s_completedCards = completedCards st,
                                s_newComments = newComments st,
                                s_newTasks = newTasks st,
                                s_completedTasks = completedTasks st\<rparr>,
                    r_changes = sortChanges parse (changes st),
                    affectedCards = map snd (affectedCardsMap st),
                    userIds = userIdsSet st\<rparr>
           | _ \<Rightarrow> Inl (Error ''Failed to get activity feed: Invalid time value'')))"

section \<open>Numbers: the percentage expression\<close>

text \<open>
  JavaScript numbers are IEEE 754 binary64 values. A finite one is a rational; an
  arithmetic operation returns the exact result rounded to the nearest value with a
  53-bit significand, ties to the even significand. \<open>toDouble\<close> is that rounding for the
  magnitudes that occur here (between \<open>2\<^sup>-\<^sup>1\<^sup>0\<^sup>2\<^sup>2\<close> and \<open>2\<^sup>1\<^sup>0\<^sup>2\<^sup>4\<close>, where every value is
  normal); \<open>binade x\<close> is the exponent \<open>e\<close> with \<open>2\<^sup>e \<le> x < 2\<^sup>e\<^sup>+\<^sup>1\<close>.
\<close>

definition pow2 :: "int \<Rightarrow> rat" where
  "pow2 e = (if 0 \<le> e then 2 ^ nat e else 1 / 2 ^ nat (- e))"

definition binade :: "rat \<Rightarrow> int" where
  "binade x =
     (let (p, q) = quotient_of x; e = bitlen p - bitlen q
      in if pow2 e \<le> x then e else e - 1)"

definition roundToEven :: "rat \<Rightarrow> int" where
  "roundToEven x =
     (let f = \<lfloor>x\<rfloor>; d = x - of_int f
      in if d < 1 / 2 then f else if 1 / 2 < d then f + 1 else if even f then f else f + 1)"

definition toDouble :: "rat \<Rightarrow> rat" where
  "toDouble x =
     (if x = 0 then 0
      else let q = pow2 (binade x - 52) in of_int (roundToEven (x / q)) * q)"

text \<open>\<open>Math.round\<close>: the nearest integer, a tie going up.\<close>

definition mathRound :: "rat \<Rightarrow> int" where
  "mathRound x = \<lfloor>x + 1 / 2\<rfloor>"

text \<open>
  \<open>whole > 0 ? Math.round((part / whole) * 100) : 0\<close>, the expression of both completion
  percentages. The operands are lengths of arrays, which binary64 holds exactly; the
  quotient and the product are each rounded.
\<close>

definition percentOf :: "nat \<Rightarrow> nat \<Rightarrow> int" where
  "percentOf part whole =
     (if whole > 0 then mathRound (toDouble (toDouble (of_nat part / of_nat whole) * 100))
      else 0)"

section \<open>The board summary (tools/board-summary.ts)\<close>

record GetBoardSummaryParams =
  gbs_boardId :: string
  includeTaskDetails :: bool
  includeComments :: bool

record TaskSummary =
  ts_items :: "Task list"
  ts_total :: nat
  ts_completed :: nat
  ts_completionPercentage :: int

record CardWithDetails =
  cwd_card :: Card
  cwd_tasks :: "TaskSummary option"
  cwd_comments :: "Comment list option"

record ListWithCards =
  lwc_list :: KList
  lwc_cards :: "CardWithDetails list"
  cardCount :: nat

record Stats =
  totalCards :: nat
  backlogCount :: nat
  inProgressCount :: nat
  testingCount :: nat
  doneCount :: nat
  urgentCount :: nat
  bugCount :: nat
  completionPercentage :: int

record WorkflowState =
  hasCardsInBacklog :: bool
  hasCardsInProgress :: bool
  hasCardsInTesting :: bool
  nextActionSuggestion :: string

record BoardSummary =
  bs_board :: Board
  bs_lists :: "ListWithCards list"
  bs_labels :: "Label list"
  stats :: Stats
  workflowState :: WorkflowState

definition getNextActionSuggestion :: "nat \<Rightarrow> nat \<Rightarrow> nat \<Rightarrow> string" where
  "getNextActionSuggestion backlogN inProgressN testingN =
     (if testingN > 0 then ''Review cards in Testing that need feedback''
      else if inProgressN > 0 then ''Continue working on cards in In Progress''
      else if backlogN > 0 then ''Start working on a card from Backlog''
      else ''All tasks complete! Create new cards or projects'')"

text \<open>The callback of the inner \<open>map\<close> (source lines 81 to 116), for one card.\<close>

definition cardWithDetails :: "accessors \<Rightarrow> bool \<Rightarrow> bool \<Rightarrow> Card \<Rightarrow> error + CardWithDetails" where
  "cardWithDetails env inclTasks inclComments crd =
     (case (if inclTasks then getTasks env (card_id crd) else Inr []) of
        Inl e \<Rightarrow> Inl e
      | Inr taskDetails \<Rightarrow>
          (case (if inclComments then getComments env (card_id crd) else Inr []) of
             Inl e \<Rightarrow> Inl e
           | Inr cardComments \<Rightarrow>
               (let completedN = length (filter task_isCompleted taskDetails);
                    totalN = length taskDetails;
                    pct = percentOf completedN totalN
                in Inr \<lparr>cwd_card = crd,
                        cwd_tasks = (if inclTasks
                                     then Some \<lparr>ts_items = taskDetails, ts_total = totalN,
                                                 ts_completed = completedN,
                                                 ts_completionPercentage = pct\<rparr>
                                     else None),
                        cwd_comments = (if inclComments then Some cardComments else None)\<rparr>)))"

text \<open>
  \<open>await Promise.all(xs.map(f))\<close> gives the results in order, or fails when some call
  fails. The calls are modelled in order; with several failures the error kept is the
  one of the first failing element, where the code keeps the one that fails first in
  time.
\<close>

fun promiseAll :: "('a \<Rightarrow> error + 'b) \<Rightarrow> 'a list \<Rightarrow> error + 'b list" where
  "promiseAll f [] = Inr []"
| "promiseAll f (x # xs) =
     (case f x of
        Inl e \<Rightarrow> Inl e
      | Inr y \<Rightarrow> (case promiseAll f xs of Inl e \<Rightarrow> Inl e | Inr ys \<Rightarrow> Inr (y # ys)))"

text \<open>The callback of the outer \<open>map\<close> (source lines 76 to 124), for one list.\<close>

definition listWithCards :: "accessors \<Rightarrow> bool \<Rightarrow> bool \<Rightarrow> KList \<Rightarrow> error + ListWithCards" where
  "listWithCards env inclTasks inclComments l =
     (case getCards env (list_id l) of
        Inl e \<Rightarrow> Inl e
      | Inr listCards \<Rightarrow>
          (case promiseAll (cardWithDetails env inclTasks inclComments) listCards of
             Inl e \<Rightarrow> Inl e
           | Inr cardsWithDetails \<Rightarrow>
               Inr \<lparr>lwc_list = l, lwc_cards = cardsWithDetails,
                    cardCount = length cardsWithDetails\<rparr>))"

text \<open>
  \<open>listsWithCards.find(list => list.name?.toLowerCase() === wanted)\<close>, then
  \<open>found?.cardCount || 0\<close>. \<open>String.prototype.toLowerCase\<close> is the parameter \<open>lower\<close>.
\<close>

definition namedList :: "(string \<Rightarrow> string) \<Rightarrow> string \<Rightarrow> ListWithCards list \<Rightarrow> ListWithCards option" where
  "namedList lower wanted ls =
     find (\<lambda>l. case list_name (lwc_list l) of None \<Rightarrow> False | Some n \<Rightarrow> lower n = wanted) ls"

definition countOf :: "ListWithCards option \<Rightarrow> nat" where
  "countOf found = (case found of None \<Rightarrow> 0 | Some l \<Rightarrow> cardCount l)"

text \<open>
  The cards that hold a label of the board whose lower-cased name is \<open>wanted\<close> (source
  lines 151 to 169).
\<close>

definition labelledCards :: "(string \<Rightarrow> string) \<Rightarrow> string \<Rightarrow> Label list \<Rightarrow> ListWithCards list \<Rightarrow> nat" where
  "labelledCards lower wanted boardLabels ls =
     length (filter
       (\<lambda>c. case card_labelIds (cwd_card c) of
               None \<Rightarrow> False
             | Some ids \<Rightarrow>
                 list_ex (\<lambda>labelId.
                    find (\<lambda>label. label_id label = labelId \<and>
                            (case label_name label of None \<Rightarrow> False | Some n \<Rightarrow> lower n = wanted))
                      boardLabels \<noteq> None) ids)
       (concat (map lwc_cards ls)))"

definition getBoardSummary ::
  "accessors \<Rightarrow> (string \<Rightarrow> string) \<Rightarrow> GetBoardSummaryParams \<Rightarrow> error + BoardSummary" where
  "getBoardSummary env lower params =
     (case getBoard env (gbs_boardId params) of
        Inl e \<Rightarrow> Inl e
      | Inr None \<Rightarrow> Inl (Error (''Board with ID '' @ gbs_boardId params @ '' not found''))
      | Inr (Some board) \<Rightarrow>
     (case getLists env (gbs_boardId params) of
        Inl e \<Rightarrow> Inl e
      | Inr allLists \<Rightarrow>
     (case promiseAll (listWithCards env (includeTaskDetails params) (includeComments params))
             allLists of
        Inl e \<Rightarrow> Inl e
      | Inr listsWithCards \<Rightarrow>
     (case getLabels env (gbs_boardId params) of
        Inl e \<Rightarrow> Inl e
      | Inr boardLabels \<Rightarrow>
          (let totalN = foldl (\<lambda>sum l. sum + cardCount l) 0 listsWithCards;
               backlogList = namedList lower ''backlog'' listsWithCards;
               inProgressList = namedList lower ''in progress'' listsWithCards;
               testingList = namedList lower ''testing'' listsWithCards;
               doneList = namedList lower ''done'' listsWithCards
           in Inr \<lparr>bs_board = board, bs_lists = listsWithCards, bs_labels = boardLabels,
                   stats = \<lparr>totalCards = totalN,
                             backlogCount = countOf backlogList,
                             inProgressCount = countOf inProgressList,
                             testingCount = countOf testingList,
                             doneCount = countOf doneList,
                             urgentCount = labelledCards lower ''urgent'' boardLabels listsWithCards,
                             bugCount = labelledCards lower ''bug'' boardLabels listsWithCards,
                             completionPercentage = percentOf (countOf doneList) totalN\<rparr>,
                   workflowState =
                     \<lparr>hasCardsInBacklog = (countOf backlogList > 0),
                       hasCardsInProgress = (countOf inProgressList > 0),
                       hasCardsInTesting = (countOf testingList > 0),
                       nextActionSuggestion =
                         getNextActionSuggestion (countOf backlogList) (countOf inProgressList)
                           (countOf testingList)\<rparr>\<rparr>)))))"

section \<open>The backing service and the operations on it (operations/*.ts)\<close>

text \<open>
  \<open>plankaRequest(path, options)\<close> lives in \<open>common/utils\<close>; the service behind
  it is a parameter. A request is the path, the HTTP verb and the JSON body the code
  builds. A response is the parsed JSON, read through the properties the code reads:
  \<open>None\<close> where a property is missing (or is not the array the code tests for), and a
  response that is \<open>null\<close> is \<open>None\<close> as a whole. Elements of an included array that
  are not objects are skipped by every reader and are left out.
\<close>

datatype verb = GET | POST | PATCH | DELETE

datatype body =
    NoBody
  | CardBody string "string option" int string
  | TaskListBody string int bool
  | TaskBody string int
  | CommentBody string

record request =
  req_path :: string
  req_verb :: verb
  req_body :: body

record TaskList =
  tl_id :: string

record CardLabel =
  cl_id :: string
  cl_cardId :: string
  cl_labelId :: string

text \<open>
  \<open>response.item\<close>: its \<open>id\<close>, and whether it passes \<open>PlankaCardSchema\<close> (which
  requires a string \<open>id\<close>).
\<close>

record item =
  item_id :: "string option"
  item_isCard :: bool

record included =
  inc_boards :: "Board list option"
  inc_lists :: "KList list option"
  inc_cards :: "Card list option"
  inc_labels :: "Label list option"
  inc_tasks :: "Task list option"
  inc_taskLists :: "TaskList list option"
  inc_cardLabels :: "CardLabel list option"

record response =
  resp_item :: "item option"
  resp_items :: "Comment list option"
  resp_included :: "included option"

definition getReq :: "string \<Rightarrow> request" where
  "getReq path = \<lparr>req_path = path, req_verb = GET, req_body = NoBody\<rparr>"

text \<open>\<open>response?.included?.field\<close>\<close>

definition includedOf :: "(included \<Rightarrow> 'a option) \<Rightarrow> response option \<Rightarrow> 'a option" where
  "includedOf field resp =
     (case resp of
        None \<Rightarrow> None
      | Some r \<Rightarrow> (case resp_included r of None \<Rightarrow> None | Some inc \<Rightarrow> field inc))"

subsection \<open>Reads, against a snapshot of the service\<close>

text \<open>
  The read accessors are given the answers of the service as a function \<open>fetch\<close> of the
  request. Each is named after its module, the plain names being the fields of
  \<open>accessors\<close>. Each catches every failure of its requests and returns the empty array.
\<close>

type_synonym fetch = "request \<Rightarrow> error + response option"

definition lists_getLists :: "fetch \<Rightarrow> string \<Rightarrow> KList list" where
  "lists_getLists fetch bId =
     (case fetch (getReq (''/api/boards/'' @ bId)) of
        Inl e \<Rightarrow> []
      | Inr response \<Rightarrow> (case includedOf inc_lists response of Some ls \<Rightarrow> ls | None \<Rightarrow> []))"

definition labels_getLabels :: "fetch \<Rightarrow> string \<Rightarrow> Label list" where
  "labels_getLabels fetch bId =
     (case fetch (getReq (''/api/boards/'' @ bId)) of
        Inl e \<Rightarrow> []
      | Inr response \<Rightarrow> (case includedOf inc_labels response of Some ls \<Rightarrow> ls | None \<Rightarrow> []))"

definition tasks_getTasks :: "fetch \<Rightarrow> string \<Rightarrow> Task list" where
  "tasks_getTasks fetch cId =
     (case fetch (getReq (''/api/cards/'' @ cId)) of
        Inl e \<Rightarrow> []
      | Inr response \<Rightarrow> (case includedOf inc_tasks response of Some ts \<Rightarrow> ts | None \<Rightarrow> []))"

definition comments_getComments :: "fetch \<Rightarrow> string \<Rightarrow> Comment list" where
  "comments_getComments fetch cId =
     (case fetch (getReq (''/api/cards/'' @ cId @ ''/comments'')) of
        Inl e \<Rightarrow> []
      | Inr response \<Rightarrow>
          (case response of
             None \<Rightarrow> []
           | Some r \<Rightarrow> (case resp_items r of Some cs \<Rightarrow> cs | None \<Rightarrow> [])))"

text \<open>
  The loop of \<open>getCards\<close> over the boards of all projects (source lines 205 to 252 of
  cards.ts): the cards of the first board that has cards of the list.
\<close>

fun cardsInBoards :: "fetch \<Rightarrow> string \<Rightarrow> Board list \<Rightarrow> error + Card list" where
  "cardsInBoards fetch lId [] = Inr []"
| "cardsInBoards fetch lId (board # boards) =
     (case fetch (getReq (''/api/boards/'' @ board_id board)) of
        Inl e \<Rightarrow> Inl e
      | Inr boardResponse \<Rightarrow>
          (case includedOf inc_cards boardResponse of
             None \<Rightarrow> cardsInBoards fetch lId boards
           | Some cards \<Rightarrow>
               (let matchingCards = filter (\<lambda>c. card_listId c = Some lId) cards
                in if length matchingCards > 0 then Inr matchingCards
                   else cardsInBoards fetch lId boards)))"

definition cards_getCards :: "fetch \<Rightarrow> string \<Rightarrow> Card list" where
  "cards_getCards fetch lId =
     (case fetch (getReq ''/api/projects'') of
        Inl e \<Rightarrow> []
      | Inr projectsResponse \<Rightarrow>
          (case includedOf inc_boards projectsResponse of
             None \<Rightarrow> []
           | Some boards \<Rightarrow>
               (case cardsInBoards fetch lId boards of Inl e \<Rightarrow> [] | Inr cards \<Rightarrow> cards)))"

text \<open>
  The accessors as the aggregators import them: the five above, and the two of
  \<open>operations/boards\<close>, which are given.
\<close>

definition repoAccessors ::
  "fetch \<Rightarrow> (string \<Rightarrow> error + Board list) \<Rightarrow> (string \<Rightarrow> error + Board option) \<Rightarrow> accessors" where
  "repoAccessors fetch boardsOf boardOf =
     \<lparr>getBoards = boardsOf, getBoard = boardOf,
      getLists = (\<lambda>bId. Inr (lists_getLists fetch bId)),
      getCards = (\<lambda>lId. Inr (cards_getCards fetch lId)),
      getTasks = (\<lambda>cId. Inr (tasks_getTasks fetch cId)),
      getComments = (\<lambda>cId. Inr (comments_getComments fetch cId)),
      getLabels = (\<lambda>bId. Inr (labels_getLabels fetch bId))\<rparr>"

subsection \<open>Writes, against a service with state\<close>

text \<open>
  For the operations that change the service, \<open>plankaRequest\<close> runs the request on the
  state of the service and records the exchange: the request with its answer. The world
  also holds the process-wide \<open>taskCardIdMap\<close> of tasks.ts.
\<close>

type_synonym exchange = "request \<times> (error + response option)"

type_synonym 'w backend = "request \<Rightarrow> 'w \<Rightarrow> (error + response option) \<times> 'w"

record 'w world =
  service :: 'w
  sent :: "exchange list"
  taskCardIdMap :: "(string \<times> string) list"

definition plankaRequest ::
  "'w backend \<Rightarrow> request \<Rightarrow> 'w world \<Rightarrow> (error + response option) \<times> 'w world" where
  "plankaRequest srv rq w =
     (case srv rq (service w) of
        (res, s') \<Rightarrow> (res, w\<lparr>service := s', sent := sent w @ [(rq, res)]\<rparr>))"

text \<open>
  The messages of the errors the code does not write itself (a \<open>ZodError\<close>, the
  \<open>TypeError\<close> of reading a property of \<open>null\<close>) are not modelled: fixed texts stand
  for them.
\<close>

definition zodErrorText :: string where
  "zodErrorText = ''invalid response''"

definition typeErrorText :: string where
  "typeErrorText = ''Cannot read properties of null''"

subsubsection \<open>labels.ts\<close>

record RemoveResult =
  success :: bool
  rr_message :: "string option"

text \<open>\<open>cardResponse?.included?.cardLabels || []\<close>\<close>

definition cardLabelsOf :: "response option \<Rightarrow> CardLabel list" where
  "cardLabelsOf cardResponse =
     (case includedOf inc_cardLabels cardResponse of None \<Rightarrow> [] | Some cls \<Rightarrow> cls)"

definition removeLabelFromCard ::
  "'w backend \<Rightarrow> string \<Rightarrow> string \<Rightarrow> 'w world \<Rightarrow> (error + RemoveResult) \<times> 'w world" where
  "removeLabelFromCard srv cId labelId w =
     (case plankaRequest srv (getReq (''/api/cards/'' @ cId)) w of
        (Inl e, w1) \<Rightarrow> (Inl (Error (''Failed to remove label from card: '' @ message e)), w1)
      | (Inr cardResponse, w1) \<Rightarrow>
          (let cardLabels = cardLabelsOf cardResponse
           in case find (\<lambda>cl. cl_cardId cl = cId \<and> cl_labelId cl = labelId) cardLabels of
                None \<Rightarrow> (Inr \<lparr>success = True, rr_message = Some ''Label was not on card''\<rparr>, w1)
              | Some cardLabel \<Rightarrow>
                  (case plankaRequest srv
                          \<lparr>req_path = ''/api/card-labels/'' @ cl_id cardLabel,
                            req_verb = DELETE, req_body = NoBody\<rparr> w1 of
                     (Inl deleteError, w2) \<Rightarrow>
                       (Inl (Error (''Failed to remove label from card: '' @
                          ''Cannot remove label - this may be a Planka version limitation. '' @
                          ''The DELETE /api/card-labels endpoint returned an error. '' @
                          ''Try removing the label manually through the Planka UI.'')), w2)
                   | (Inr r, w2) \<Rightarrow> (Inr \<lparr>success = True, rr_message = None\<rparr>, w2))))"

subsubsection \<open>cards.ts\<close>

record CreateCardOptions =
  cco_listId :: string
  cco_name :: string
  cco_description :: "string option"
  cco_position :: "int option"
  cco_type :: "string option"

text \<open>The card \<open>CardResponseSchema.parse\<close> returns: the item, and its id.\<close>

record CreatedCard =
  cc_id :: string
  cc_item :: item

definition parseCardResponse :: "response option \<Rightarrow> CreatedCard option" where
  "parseCardResponse response =
     (case response of
        None \<Rightarrow> None
      | Some r \<Rightarrow>
          (case resp_item r of
             None \<Rightarrow> None
           | Some it \<Rightarrow>
               (case item_id it of
                  None \<Rightarrow> None
                | Some i \<Rightarrow> if item_isCard it then Some \<lparr>cc_id = i, cc_item = it\<rparr> else None)))"

text \<open>The request of \<open>createCard\<close>, with the body built in source lines 140 to 154.\<close>

definition cardRequest :: "CreateCardOptions \<Rightarrow> request" where
  "cardRequest options =
     \<lparr>req_path = ''/api/lists/'' @ cco_listId options @ ''/cards'', req_verb = POST,
      req_body = CardBody (cco_name options)
        (if truthy (cco_description options) then cco_description options else None)
        (case cco_position options of Some p \<Rightarrow> p | None \<Rightarrow> 65535)
        (if truthy (cco_type options) then the (cco_type options) else ''project'')\<rparr>"

definition createCard ::
  "'w backend \<Rightarrow> CreateCardOptions \<Rightarrow> 'w world \<Rightarrow> (error + CreatedCard) \<times> 'w world" where
  "createCard srv options w =
     (case plankaRequest srv (cardRequest options) w of
        (Inl e, w1) \<Rightarrow> (Inl (Error (''Failed to create card: '' @ message e)), w1)
      | (Inr response, w1) \<Rightarrow>
          (case parseCardResponse response of
             None \<Rightarrow> (Inl (Error (''Failed to create card: '' @ zodErrorText)), w1)
           | Some c \<Rightarrow> (Inr c, w1)))"

subsubsection \<open>tasks.ts\<close>

definition getOrCreateTaskList ::
  "'w backend \<Rightarrow> string \<Rightarrow> 'w world \<Rightarrow> (error + string) \<times> 'w world" where
  "getOrCreateTaskList srv cId w =
     (case plankaRequest srv (getReq (''/api/cards/'' @ cId)) w of
        (Inl e, w1) \<Rightarrow> (Inl (Error (''Failed to get/create task list: '' @ message e)), w1)
      | (Inr cardResponse, w1) \<Rightarrow>
          (case (case includedOf inc_taskLists cardResponse of None \<Rightarrow> [] | Some tls \<Rightarrow> tls) of
             taskList # rest \<Rightarrow> (Inr (tl_id taskList), w1)
           | [] \<Rightarrow>
               (case plankaRequest srv
                       \<lparr>req_path = ''/api/cards/'' @ cId @ ''/task-lists'', req_verb = POST,
                         req_body = TaskListBody ''Tasks'' 65535 True\<rparr> w1 of
                  (Inl e, w2) \<Rightarrow>
                    (Inl (Error (''Failed to get/create task list: '' @ message e)), w2)
                | (Inr response, w2) \<Rightarrow>
                    (case (case response of None \<Rightarrow> None
                           | Some r \<Rightarrow> (case resp_item r of None \<Rightarrow> None | Some it \<Rightarrow> item_id it)) of
                       Some i \<Rightarrow>
                         if i \<noteq> [] then (Inr i, w2)
                         else (Inl (Error (''Failed to get/create task list: '' @
                                 ''Failed to create task list'')), w2)
                     | None \<Rightarrow>
                         (Inl (Error (''Failed to get/create task list: '' @
                            ''Failed to create task list'')), w2)))))"

definition createTask ::
  "'w backend \<Rightarrow> string \<Rightarrow> string \<Rightarrow> int option \<Rightarrow> 'w world \<Rightarrow> (error + item option) \<times> 'w world" where
  "createTask srv cId name position w =
     (case getOrCreateTaskList srv cId w of
        (Inl e, w1) \<Rightarrow> (Inl (Error (''Failed to create task: '' @ message e)), w1)
      | (Inr taskListId, w1) \<Rightarrow>
          (case plankaRequest srv
                  \<lparr>req_path = ''/api/task-lists/'' @ taskListId @ ''/tasks'', req_verb = POST,
                    req_body = TaskBody name (case position of Some p \<Rightarrow> p | None \<Rightarrow> 65535)\<rparr>
                  w1 of
             (Inl e, w2) \<Rightarrow> (Inl (Error (''Failed to create task: '' @ message e)), w2)
           | (Inr None, w2) \<Rightarrow> (Inl (Error (''Failed to create task: '' @ typeErrorText)), w2)
           | (Inr (Some r), w2) \<Rightarrow>
               (Inr (resp_item r),
                (case resp_item r of
                   None \<Rightarrow> w2
                 | Some it \<Rightarrow>
                     if truthy (item_id it)
                     then w2\<lparr>taskCardIdMap :=
                            AList.update (the (item_id it)) cId (taskCardIdMap w2)\<rparr>
                     else w2))))"

subsubsection \<open>comments.ts\<close>

text \<open>What \<open>createComment\<close> returns: \<open>response.item\<close> when there is one, else the response.\<close>

datatype created = CreatedItem item | CreatedRaw "response option"

definition createComment ::
  "'w backend \<Rightarrow> string \<Rightarrow> string \<Rightarrow> 'w world \<Rightarrow> (error + created) \<times> 'w world" where
  "createComment srv cId text w =
     (case plankaRequest srv
             \<lparr>req_path = ''/api/cards/'' @ cId @ ''/comments'', req_verb = POST,
               req_body = CommentBody text\<rparr> w of
        (Inl e, w1) \<Rightarrow> (Inl (Error (''Failed to create comment: '' @ message e)), w1)
      | (Inr response, w1) \<Rightarrow>
          (Inr (case response of
                  None \<Rightarrow> CreatedRaw response
                | Some r \<Rightarrow>
                    (case resp_item r of None \<Rightarrow> CreatedRaw response | Some it \<Rightarrow> CreatedItem it)),
           w1))"

section \<open>The composite write (tools/create-card-with-tasks.ts)\<close>

record CreateCardWithTasksParams =
  cwt_listId :: string
  cwt_name :: string
  cwt_description :: "string option"
  cwt_tasks :: "string list option"
  cwt_comment :: "string option"
  cwt_position :: "int option"
  cwt_type :: "string option"

record CreateCardWithTasksResult =
  res_card :: CreatedCard
  res_tasks :: "item option list"
  res_comment :: "created option"

text \<open>The options \<open>createCardWithTasks\<close> passes to \<open>createCard\<close> (source lines 62 to 68).\<close>

definition cardOptions :: "CreateCardWithTasksParams \<Rightarrow> CreateCardOptions" where
  "cardOptions params =
     \<lparr>cco_listId = cwt_listId params, cco_name = cwt_name params,
      cco_description =
        Some (if truthy (cwt_description params) then the (cwt_description params) else []),
      cco_position = Some (case cwt_position params of Some p \<Rightarrow> p | None \<Rightarrow> 65535),
      cco_type = cwt_type params\<rparr>"

text \<open>
  The loop \<open>for (let i = 0; i < tasks.length; i++)\<close> (source lines 73 to 84), from index
  \<open>i\<close> with the tasks created so far.
\<close>

function createTasksFrom ::
  "'w backend \<Rightarrow> string \<Rightarrow> string list \<Rightarrow> nat \<Rightarrow> item option list \<Rightarrow> 'w world \<Rightarrow>
     (error + item option list) \<times> 'w world" where
  "createTasksFrom srv cId tasks i createdTasks w =
     (if i < length tasks then
        (case createTask srv cId (tasks ! i) (Some (65535 * (int i + 1))) w of
           (Inl e, w') \<Rightarrow> (Inl e, w')
         | (Inr task, w') \<Rightarrow> createTasksFrom srv cId tasks (i + 1) (createdTasks @ [task]) w')
      else (Inr createdTasks, w))"
  by pat_completeness auto
termination
  by (relation "measure (\<lambda>(srv, cId, tasks, i, createdTasks, w). length tasks - i)") auto

text \<open>The task phase (source lines 71 to 85) and the comment phase (lines 88 to 94).\<close>

definition taskPhase ::
  "'w backend \<Rightarrow> string \<Rightarrow> string list option \<Rightarrow> 'w world \<Rightarrow>
     (error + item option list) \<times> 'w world" where
  "taskPhase srv cId tasks w =
     (case tasks of
        None \<Rightarrow> (Inr [], w)
      | Some ts \<Rightarrow> if length ts > 0 then createTasksFrom srv cId ts 0 [] w else (Inr [], w))"

definition commentPhase ::
  "'w backend \<Rightarrow> string \<Rightarrow> string option \<Rightarrow> 'w world \<Rightarrow> (error + created option) \<times> 'w world" where
  "commentPhase srv cId comment w =
     (if truthy comment then
        (case createComment srv cId (the comment) w of
           (Inl e, w') \<Rightarrow> (Inl e, w')
         | (Inr c, w') \<Rightarrow> (Inr (Some c), w'))
      else (Inr None, w))"

definition createCardWithTasks ::
  "'w backend \<Rightarrow> CreateCardWithTasksParams \<Rightarrow> 'w world \<Rightarrow>
     (error + CreateCardWithTasksResult) \<times> 'w world" where
  "createCardWithTasks srv params w =
     (case createCard srv (cardOptions params) w of
        (Inl e, w1) \<Rightarrow> (Inl e, w1)
      | (Inr crd, w1) \<Rightarrow>
          (case taskPhase srv (cc_id crd) (cwt_tasks params) w1 of
             (Inl e, w2) \<Rightarrow> (Inl e, w2)
           | (Inr createdTasks, w2) \<Rightarrow>
               (case commentPhase srv (cc_id crd) (cwt_comment params) w2 of
                  (Inl e, w3) \<Rightarrow> (Inl e, w3)
                | (Inr createdComment, w3) \<Rightarrow>
                    (Inr \<lparr>res_card = crd, res_tasks = createdTasks,
                          res_comment = createdComment\<rparr>, w3))))"

section \<open>Notions used to state the properties of the feed\<close>


definition isComment :: "ActivityEntry \<Rightarrow> bool" where
  "isComment e = (etype e = comment_added)"





text \<open>The instant of an entry as the comparator of the sort reads it (\<open>None\<close> for NaN).\<close>

definition instant :: "(string \<Rightarrow> date) \<Rightarrow> ActivityEntry \<Rightarrow> date" where
  "instant parse e = (case timestamp e of None \<Rightarrow> None | Some s \<Rightarrow> parse s)"

text \<open>
  The cards the traversal reaches, in its order, each with the ids of the board and of
  the list it was reached through; an error where the traversal stops with one.
\<close>

fun listCards :: "accessors \<Rightarrow> string \<Rightarrow> KList list \<Rightarrow> error + (string \<times> string \<times> Card) list" where
  "listCards env bId [] = Inr []"
| "listCards env bId (l # ls) =
     (case getCards env (list_id l) of
        Inl e \<Rightarrow> Inl e
      | Inr cards \<Rightarrow>
          (case listCards env bId ls of
             Inl e \<Rightarrow> Inl e
           | Inr rest \<Rightarrow> Inr (map (\<lambda>c. (bId, list_id l, c)) cards @ rest)))"

fun boardCards :: "accessors \<Rightarrow> Board list \<Rightarrow> error + (string \<times> string \<times> Card) list" where
  "boardCards env [] = Inr []"
| "boardCards env (b # bs) =
     (case getLists env (board_id b) of
        Inl e \<Rightarrow> Inl e
      | Inr ls \<Rightarrow>
          (case listCards env (board_id b) ls of
             Inl e \<Rightarrow> Inl e
           | Inr cs \<Rightarrow>
               (case boardCards env bs of
                  Inl e \<Rightarrow> Inl e
                | Inr rest \<Rightarrow> Inr (cs @ rest))))"

definition traversedCards :: "accessors \<Rightarrow> string \<Rightarrow> error + (string \<times> string \<times> Card) list" where
  "traversedCards env pId =
     (case getBoards env pId of Inl e \<Rightarrow> Inl e | Inr boards \<Rightarrow> boardCards env boards)"

text \<open>The comments of a card whose creation instant lies in the window.\<close>

definition windowComments ::
  "accessors \<Rightarrow> (string \<Rightarrow> date) \<Rightarrow> date \<Rightarrow> date \<Rightarrow> Card \<Rightarrow> Comment list" where
  "windowComments env parse from to crd =
     filter (\<lambda>cm. isWithinRange parse (comment_createdAt cm) from to) (commentsOf env (card_id crd))"

text \<open>One step of the traversal, on a card with the ids it was reached through.\<close>

abbreviation (input) "feedStep env parse from to maxC \<equiv>
   (\<lambda>(b, l, c) st. processCard env parse from to maxC b l c st)"

text \<open>
  The bookkeeping between the entries and the counters: the comment entries are as many
  as the counter of comments, up to the cap; every other entry has its counter.
\<close>

definition counted :: "rat \<Rightarrow> feed_state \<Rightarrow> bool" where
  "counted maxC st \<longleftrightarrow>
     int (length (filter isComment (changes st))) = min (int (newComments st)) (max 0 \<lceil>maxC\<rceil>) \<and>
     length (filter (\<lambda>e. \<not> isComment e) (changes st)) =
       newCards st + updatedCards st + completedCards st + newTasks st + completedTasks st"

definition allInWindow :: "(string \<Rightarrow> date) \<Rightarrow> date \<Rightarrow> date \<Rightarrow> feed_state \<Rightarrow> bool" where
  "allInWindow parse from to st \<longleftrightarrow>
     (\<forall>e \<in> set (changes st). isWithinRange parse (timestamp e) from to)"

text \<open>A card is among the affected cards, under its own id.\<close>

definition affects :: "string \<Rightarrow> feed_state \<Rightarrow> bool" where
  "affects cId st \<longleftrightarrow> (\<exists>v. (cId, v) \<in> set (affectedCardsMap st) \<and> ac_cardId v = cId)"

text \<open>The sum of the six counters of the summary.\<close>

definition counterSum :: "Summary \<Rightarrow> nat" where
  "counterSum s = s_newCards s + s_updatedCards s + s_completedCards s + s_newComments s +
     s_newTasks s + s_completedTasks s"

section \<open>Notions used to state the properties of the board summary\<close>

text \<open>
  A nested fetch fails: for a card its tasks or its comments, when asked for; for a list
  its cards, or a nested fetch of one of its cards; for the board its lists, a nested
  fetch of one of its lists, or its labels.
\<close>

definition cardFailure :: "accessors \<Rightarrow> bool \<Rightarrow> bool \<Rightarrow> Card \<Rightarrow> bool" where
  "cardFailure env inclTasks inclComments crd \<longleftrightarrow>
     inclTasks \<and> isl (getTasks env (card_id crd)) \<or>
     inclComments \<and> isl (getComments env (card_id crd))"

definition listFailure :: "accessors \<Rightarrow> bool \<Rightarrow> bool \<Rightarrow> KList \<Rightarrow> bool" where
  "listFailure env inclTasks inclComments l \<longleftrightarrow>
     (case getCards env (list_id l) of
        Inl e \<Rightarrow> True
      | Inr cards \<Rightarrow> (\<exists>c \<in> set cards. cardFailure env inclTasks inclComments c))"

definition nestedFailure :: "accessors \<Rightarrow> GetBoardSummaryParams \<Rightarrow> bool" where
  "nestedFailure env params \<longleftrightarrow>
     (case getLists env (gbs_boardId params) of
        Inl e \<Rightarrow> True
      | Inr ls \<Rightarrow>
          (\<exists>l \<in> set ls. listFailure env (includeTaskDetails params) (includeComments params) l)) \<or>
     isl (getLabels env (gbs_boardId params))"

text \<open>
  The lists of the board under a name, compared in lower case: \<open>firstNamed\<close> is the first
  list of the board so named, \<open>firstHasCards\<close> says that it has a card,
  \<open>someHasCards\<close> that some list so named has one, and \<open>nameOnce\<close> that at most one
  list of the board is so named.
\<close>

definition named :: "(string \<Rightarrow> string) \<Rightarrow> string \<Rightarrow> KList \<Rightarrow> bool" where
  "named lower wanted l = (case list_name l of None \<Rightarrow> False | Some n \<Rightarrow> lower n = wanted)"

definition firstNamed :: "(string \<Rightarrow> string) \<Rightarrow> string \<Rightarrow> KList list \<Rightarrow> KList option" where
  "firstNamed lower wanted ls =
     (case filter (named lower wanted) ls of [] \<Rightarrow> None | l # rest \<Rightarrow> Some l)"

definition cardsOfList :: "accessors \<Rightarrow> KList \<Rightarrow> Card list" where
  "cardsOfList env l = (case getCards env (list_id l) of Inl e \<Rightarrow> [] | Inr cs \<Rightarrow> cs)"

definition firstHasCards :: "accessors \<Rightarrow> (string \<Rightarrow> string) \<Rightarrow> string \<Rightarrow> KList list \<Rightarrow> bool" where
  "firstHasCards env lower wanted ls =
     (case firstNamed lower wanted ls of None \<Rightarrow> False | Some l \<Rightarrow> cardsOfList env l \<noteq> [])"

definition someHasCards :: "accessors \<Rightarrow> (string \<Rightarrow> string) \<Rightarrow> string \<Rightarrow> KList list \<Rightarrow> bool" where
  "someHasCards env lower wanted ls \<longleftrightarrow>
     (\<exists>l \<in> set ls. named lower wanted l \<and> cardsOfList env l \<noteq> [])"

definition nameOnce :: "(string \<Rightarrow> string) \<Rightarrow> string \<Rightarrow> KList list \<Rightarrow> bool" where
  "nameOnce lower wanted ls \<longleftrightarrow> length (filter (named lower wanted) ls) \<le> 1"

text \<open>
  The accessors of the repository, with the accessor of the comments left open.
\<close>

definition repoWith ::
  "fetch \<Rightarrow> (string \<Rightarrow> error + Board list) \<Rightarrow> (string \<Rightarrow> error + Board option) \<Rightarrow>
     (string \<Rightarrow> error + Comment list) \<Rightarrow> accessors" where
  "repoWith fetch boardsOf boardOf commentsFor =
     (repoAccessors fetch boardsOf boardOf)\<lparr>getComments := commentsFor\<rparr>"

text \<open>
  The exact percentage \<open>100 * a / b\<close> lies halfway between two integers.
\<close>

definition exactHalf :: "nat \<Rightarrow> nat \<Rightarrow> bool" where
  "exactHalf a b \<longleftrightarrow> (200 * a + b) mod (2 * b) = 0"

section \<open>Notions used to state the properties of the writes\<close>

text \<open>
  The tasks an exchange list created: the name and position of every \<open>POST\<close> of a task
  body that was answered without error. \<open>expectedTasks tasks i k\<close> are the tasks of
  indices \<open>i\<close> up to \<open>k\<close> with the positions the loop gives them. \<open>noDelete\<close> holds of
  exchanges that only read and create.
\<close>

fun taskPost :: "exchange \<Rightarrow> (string \<times> int) option" where
  "taskPost (rq, Inr response) =
     (case req_body rq of
        TaskBody name position \<Rightarrow> if req_verb rq = POST then Some (name, position) else None
      | _ \<Rightarrow> None)"
| "taskPost (rq, Inl e) = None"

fun taskPosts :: "exchange list \<Rightarrow> (string \<times> int) list" where
  "taskPosts [] = []"
| "taskPosts (x # xs) =
     (case taskPost x of Some p \<Rightarrow> p # taskPosts xs | None \<Rightarrow> taskPosts xs)"

definition expectedTasks :: "string list \<Rightarrow> nat \<Rightarrow> nat \<Rightarrow> (string \<times> int) list" where
  "expectedTasks tasks i k = map (\<lambda>j. (tasks ! j, 65535 * (int j + 1))) [i..<k]"

definition noDelete :: "exchange list \<Rightarrow> bool" where
  "noDelete xs \<longleftrightarrow> (\<forall>x \<in> set xs. req_verb (fst x) = GET \<or> req_verb (fst x) = POST)"

definition namesOf :: "string list option \<Rightarrow> string list" where
  "namesOf tasks = (case tasks of None \<Rightarrow> [] | Some ts \<Rightarrow> ts)"

section \<open>A concrete project\<close>

text \<open>
  One board with one list of two cards. The first card was created and updated inside
  the window and has a task and three comments, the last of them with an empty user id;
  the second was only updated inside the window, and fetching its comments fails.
  \<open>demoParse\<close> reads the timestamps that occur.
\<close>

definition demoParse :: "string \<Rightarrow> date" where
  "demoParse = map_of
     [(''2024-04-20T08:00:00Z'', 1713600000000),
      (''2024-05-01T00:00:00Z'', 1714521600000),
      (''2024-05-01T08:00:00Z'', 1714550400000),
      (''2024-05-01T08:30:00Z'', 1714552200000),
      (''2024-05-01T09:00:00Z'', 1714554000000),
      (''2024-05-01T10:00:00Z'', 1714557600000),
      (''2024-05-01T10:30:00Z'', 1714559400000),
      (''2024-05-01T11:00:00Z'', 1714561200000),
      (''2024-05-01T12:00:00Z'', 1714564800000),
      (''2024-05-02T00:00:00Z'', 1714608000000)]"

definition demoCard1 :: Card where
  "demoCard1 = \<lparr>card_id = ''c1'', card_listId = Some ''l1'', card_name = ''Write report'',
     card_createdAt = Some ''2024-05-01T08:00:00Z'', card_updatedAt = Some ''2024-05-01T09:00:00Z'',
     card_isCompleted = Some True, card_labelIds = None\<rparr>"

definition demoCard2 :: Card where
  "demoCard2 = \<lparr>card_id = ''c2'', card_listId = Some ''l1'', card_name = ''Fix login'',
     card_createdAt = Some ''2024-04-20T08:00:00Z'', card_updatedAt = Some ''2024-05-01T12:00:00Z'',
     card_isCompleted = None, card_labelIds = None\<rparr>"

definition demoComments :: "Comment list" where
  "demoComments =
     [\<lparr>comment_id = ''m1'', comment_userId = Some ''u1'', comment_text = Some ''first'',
       comment_data_text = None, comment_createdAt = Some ''2024-05-01T10:00:00Z''\<rparr>,
      \<lparr>comment_id = ''m2'', comment_userId = Some ''u2'', comment_text = None,
       comment_data_text = Some ''second'', comment_createdAt = Some ''2024-05-01T10:30:00Z''\<rparr>,
      \<lparr>comment_id = ''m3'', comment_userId = Some [], comment_text = Some ''third'',
       comment_data_text = None, comment_createdAt = Some ''2024-05-01T11:00:00Z''\<rparr>]"

definition demoEnv :: accessors where
  "demoEnv = \<lparr>
     getBoards = (\<lambda>p. if p = ''p1'' then Inr [\<lparr>board_id = ''b1''\<rparr>]
                      else if p = ''p0'' then Inr [] else Inl (Error ''Not Found'')),
     getBoard = (\<lambda>b. if b = ''b1'' then Inr (Some \<lparr>board_id = ''b1''\<rparr>) else Inr None),
     getLists = (\<lambda>b. if b = ''b1'' then Inr [\<lparr>list_id = ''l1'', list_name = Some ''Backlog''\<rparr>]
                     else Inr []),
     getCards = (\<lambda>l. if l = ''l1'' then Inr [demoCard1, demoCard2] else Inr []),
     getTasks = (\<lambda>c. if c = ''c1''
                     then Inr [\<lparr>task_id = ''t1'', task_isCompleted = False,
                                 task_createdAt = Some ''2024-05-01T08:30:00Z'',
                                 task_updatedAt = None\<rparr>]
                     else Inr []),
     getComments = (\<lambda>c. if c = ''c1'' then Inr demoComments else Inl (Error ''Request failed'')),
     getLabels = (\<lambda>b. Inr [])\<rparr>"

definition demoParams :: "rat \<Rightarrow> GetActivityFeedParams" where
  "demoParams n = \<lparr>projectId = ''p1'', since = Some ''2024-05-01T00:00:00Z'',
     until = Some ''2024-05-02T00:00:00Z'', maxComments = Some n\<rparr>"

definition demoNow :: int where
  "demoNow = 1714608000000"

definition demoResult :: ActivityFeedResult where
  "demoResult =
     \<lparr>query_projectId = ''p1'', query_from = 1714521600000, query_to = 1714608000000,
      summary = \<lparr>totalChanges = 4, s_newCards = 1, s_updatedCards = 1, s_completedCards = 0,
                  s_newComments = 3, s_newTasks = 1, s_completedTasks = 0\<rparr>,
      r_changes =
        [\<lparr>timestamp = Some ''2024-05-01T12:00:00Z'', etype = card_updated, boardId = ''b1'',
           listId = Some ''l1'', cardId = ''c2'', taskId = None, commentId = None,
           userId = None, preview = None\<rparr>,
         \<lparr>timestamp = Some ''2024-05-01T10:00:00Z'', etype = comment_added, boardId = ''b1'',
           listId = Some ''l1'', cardId = ''c1'', taskId = None, commentId = Some ''m1'',
           userId = Some ''u1'', preview = Some ''first''\<rparr>,
         \<lparr>timestamp = Some ''2024-05-01T08:30:00Z'', etype = task_created, boardId = ''b1'',
           listId = Some ''l1'', cardId = ''c1'', taskId = Some ''t1'', commentId = None,
           userId = None, preview = None\<rparr>,
         \<lparr>timestamp = Some ''2024-05-01T08:00:00Z'', etype = card_created, boardId = ''b1'',
           listId = Some ''l1'', cardId = ''c1'', taskId = None, commentId = None,
           userId = None, preview = None\<rparr>],
      affectedCards =
        [\<lparr>ac_cardId = ''c1'', ac_cardName = ''Write report'', ac_boardId = ''b1'',
           ac_listId = ''l1''\<rparr>,
         \<lparr>ac_cardId = ''c2'', ac_cardName = ''Fix login'', ac_boardId = ''b1'',
           ac_listId = ''l1''\<rparr>],
      userIds = [''u1'', ''u2'']\<rparr>"

definition demoFrom :: date where
  "demoFrom = Some 1714521600000"

definition demoTo :: date where
  "demoTo = Some 1714608000000"

text \<open>The cards the traversal of the project reaches.\<close>

definition demoVisits :: "(string \<times> string \<times> Card) list" where
  "demoVisits = [(''b1'', ''l1'', demoCard1), (''b1'', ''l1'', demoCard2)]"

section \<open>Concrete boards\<close>

text \<open>
  The service answers the requests for the projects and for board \<open>b1\<close> and fails every
  other request, so every fetch of tasks or comments fails. The first board has a list
  Backlog with two cards and a list Done with one; the second has 17 cards in progress and
  23 done. \<open>boardEnv\<close> is the same service for any lists and cards: a board with one card
  in each of Backlog, In Progress and TESTING; a board with an empty list \<open>testing\<close>
  before a list \<open>Testing\<close> with a card; a board with none of the three names.
  \<open>asciiLower\<close> lower-cases the letters A to Z.
\<close>

definition asciiLower :: "string \<Rightarrow> string" where
  "asciiLower s =
     map (\<lambda>c. let n = (of_char c :: nat) in if 65 \<le> n \<and> n \<le> 90 then char_of (n + 32) else c) s"

definition plainCard :: "string \<Rightarrow> string \<Rightarrow> Card" where
  "plainCard cId lId = \<lparr>card_id = cId, card_listId = Some lId, card_name = ''Card '' @ cId,
     card_createdAt = Some ''2024-05-01T08:00:00Z'', card_updatedAt = None,
     card_isCompleted = None, card_labelIds = None\<rparr>"

definition boardIncluded :: "KList list \<Rightarrow> Card list \<Rightarrow> response option" where
  "boardIncluded ls cs =
     Some \<lparr>resp_item = None, resp_items = None,
           resp_included = Some \<lparr>inc_boards = None, inc_lists = Some ls, inc_cards = Some cs,
             inc_labels = Some [], inc_tasks = None, inc_taskLists = None,
             inc_cardLabels = None\<rparr>\<rparr>"

definition projectsResponse :: "response option" where
  "projectsResponse =
     Some \<lparr>resp_item = None, resp_items = None,
           resp_included = Some \<lparr>inc_boards = Some [\<lparr>board_id = ''b1''\<rparr>], inc_lists = None,
             inc_cards = None, inc_labels = None, inc_tasks = None, inc_taskLists = None,
             inc_cardLabels = None\<rparr>\<rparr>"

text \<open>The first board: Backlog with two cards, Done with one.\<close>

definition scenarioFetch :: fetch where
  "scenarioFetch rq =
     (if req_path rq = ''/api/projects'' then Inr projectsResponse
      else if req_path rq = ''/api/boards/b1'' then
        Inr (boardIncluded
               [\<lparr>list_id = ''l1'', list_name = Some ''Backlog''\<rparr>,
                \<lparr>list_id = ''l2'', list_name = Some ''Done''\<rparr>]
               [plainCard ''c1'' ''l1'', plainCard ''c2'' ''l1'', plainCard ''c3'' ''l2''])
      else Inl (Error ''Request failed''))"

definition scenarioBoardOf :: "string \<Rightarrow> error + Board option" where
  "scenarioBoardOf bId = (if bId = ''b1'' then Inr (Some \<lparr>board_id = ''b1''\<rparr>) else Inr None)"

definition scenarioEnv :: accessors where
  "scenarioEnv = repoAccessors scenarioFetch (\<lambda>p. Inr [\<lparr>board_id = ''b1''\<rparr>]) scenarioBoardOf"

definition scenarioParams :: "bool \<Rightarrow> bool \<Rightarrow> GetBoardSummaryParams" where
  "scenarioParams it ic = \<lparr>gbs_boardId = ''b1'', includeTaskDetails = it, includeComments = ic\<rparr>"

text \<open>The second board: 40 cards, 23 of them in Done.\<close>

definition tieFetch :: fetch where
  "tieFetch rq =
     (if req_path rq = ''/api/projects'' then Inr projectsResponse
      else if req_path rq = ''/api/boards/b1'' then
        Inr (boardIncluded
               [\<lparr>list_id = ''l1'', list_name = Some ''In Progress''\<rparr>,
                \<lparr>list_id = ''l2'', list_name = Some ''Done''\<rparr>]
               (replicate 17 (plainCard ''c'' ''l1'') @ replicate 23 (plainCard ''d'' ''l2'')))
      else Inl (Error ''Request failed''))"

definition tieEnv :: accessors where
  "tieEnv = repoAccessors tieFetch (\<lambda>p. Inr [\<lparr>board_id = ''b1''\<rparr>]) scenarioBoardOf"

definition scenarioSummary :: BoardSummary where
  "scenarioSummary =
     \<lparr>bs_board = \<lparr>board_id = ''b1''\<rparr>,
      bs_lists =
        [\<lparr>lwc_list = \<lparr>list_id = ''l1'', list_name = Some ''Backlog''\<rparr>,
           lwc_cards =
             [\<lparr>cwd_card = plainCard ''c1'' ''l1'', cwd_tasks = None, cwd_comments = None\<rparr>,
              \<lparr>cwd_card = plainCard ''c2'' ''l1'', cwd_tasks = None, cwd_comments = None\<rparr>],
           cardCount = 2\<rparr>,
         \<lparr>lwc_list = \<lparr>list_id = ''l2'', list_name = Some ''Done''\<rparr>,
           lwc_cards =
             [\<lparr>cwd_card = plainCard ''c3'' ''l2'', cwd_tasks = None, cwd_comments = None\<rparr>],
           cardCount = 1\<rparr>],
      bs_labels = [],
      stats = \<lparr>totalCards = 3, backlogCount = 2, inProgressCount = 0, testingCount = 0,
                doneCount = 1, urgentCount = 0, bugCount = 0, completionPercentage = 33\<rparr>,
      workflowState = \<lparr>hasCardsInBacklog = True, hasCardsInProgress = False,
                        hasCardsInTesting = False,
                        nextActionSuggestion = ''Start working on a card from Backlog''\<rparr>\<rparr>"

definition failingLabelsEnv :: accessors where
  "failingLabelsEnv = scenarioEnv\<lparr>getLabels := (\<lambda>bId. Inl (Error ''Request failed''))\<rparr>"

definition boardFetch :: "KList list \<Rightarrow> Card list \<Rightarrow> fetch" where
  "boardFetch ls cs rq =
     (if req_path rq = ''/api/projects'' then Inr projectsResponse
      else if req_path rq = ''/api/boards/b1'' then Inr (boardIncluded ls cs)
      else Inl (Error ''Request failed''))"

definition boardEnv :: "KList list \<Rightarrow> Card list \<Rightarrow> accessors" where
  "boardEnv ls cs = repoAccessors (boardFetch ls cs) (\<lambda>p. Inr [\<lparr>board_id = ''b1''\<rparr>]) scenarioBoardOf"

definition reviewLists :: "KList list" where
  "reviewLists =
     [\<lparr>list_id = ''l1'', list_name = Some ''Backlog''\<rparr>,
      \<lparr>list_id = ''l2'', list_name = Some ''In Progress''\<rparr>,
      \<lparr>list_id = ''l3'', list_name = Some ''TESTING''\<rparr>,
      \<lparr>list_id = ''l4'', list_name = None\<rparr>]"

definition reviewCards :: "Card list" where
  "reviewCards = [plainCard ''c1'' ''l1'', plainCard ''c2'' ''l2'', plainCard ''c3'' ''l3'']"

definition twinLists :: "KList list" where
  "twinLists =
     [\<lparr>list_id = ''l1'', list_name = Some ''testing''\<rparr>,
      \<lparr>list_id = ''l2'', list_name = Some ''Testing''\<rparr>,
      \<lparr>list_id = ''l3'', list_name = Some ''In Progress''\<rparr>]"

definition twinCards :: "Card list" where
  "twinCards = [plainCard ''c1'' ''l2'', plainCard ''c2'' ''l3'']"

definition otherLists :: "KList list" where
  "otherLists =
     [\<lparr>list_id = ''l1'', list_name = Some ''Ideas''\<rparr>, \<lparr>list_id = ''l2'', list_name = None\<rparr>]"

text \<open>An accessor of comments that always throws.\<close>

definition failingComments :: "string \<Rightarrow> error + Comment list" where
  "failingComments cId = Inl (Error ''Request failed'')"

section \<open>A concrete service\<close>

text \<open>
  The service creates card \<open>c9\<close> in list \<open>l1\<close>, shows it with one task list and one
  label, accepts a comment, and creates two tasks before it starts to fail. Its state is
  the number of tasks created.
\<close>

definition itemResponse :: "string \<Rightarrow> bool \<Rightarrow> response option" where
  "itemResponse i isCard =
     Some \<lparr>resp_item = Some \<lparr>item_id = Some i, item_isCard = isCard\<rparr>, resp_items = None,
           resp_included = None\<rparr>"

definition cardResponse9 :: "response option" where
  "cardResponse9 =
     Some \<lparr>resp_item = Some \<lparr>item_id = Some ''c9'', item_isCard = True\<rparr>, resp_items = None,
           resp_included = Some \<lparr>inc_boards = None, inc_lists = None, inc_cards = None,
             inc_labels = None, inc_tasks = None, inc_taskLists = Some [\<lparr>tl_id = ''tl1''\<rparr>],
             inc_cardLabels = Some [\<lparr>cl_id = ''x1'', cl_cardId = ''c9'', cl_labelId = ''lab1''\<rparr>]\<rparr>\<rparr>"

definition demoSrv :: "nat backend" where
  "demoSrv rq n =
     (if req_verb rq = POST \<and> req_path rq = ''/api/lists/l1/cards'' then
        (Inr (itemResponse ''c9'' True), n)
      else if req_verb rq = GET \<and> req_path rq = ''/api/cards/c9'' then (Inr cardResponse9, n)
      else if req_verb rq = POST \<and> req_path rq = ''/api/task-lists/tl1/tasks'' then
        (if n < 2 then (Inr (itemResponse (if n = 0 then ''t1'' else ''t2'') False), n + 1)
         else (Inl (Error ''Internal Server Error''), n))
      else if req_verb rq = POST \<and> req_path rq = ''/api/cards/c9/comments'' then
        (Inr (itemResponse ''m1'' False), n)
      else (Inl (Error ''Not Found''), n))"

definition world0 :: "nat world" where
  "world0 = \<lparr>service = 0, sent = [], taskCardIdMap = []\<rparr>"

definition demoCardParams :: "string list \<Rightarrow> CreateCardWithTasksParams" where
  "demoCardParams names =
     \<lparr>cwt_listId = ''l1'', cwt_name = ''Release'', cwt_description = None,
      cwt_tasks = Some names, cwt_comment = Some ''go'', cwt_position = None, cwt_type = None\<rparr>"

definition demoCard9 :: CreatedCard where
  "demoCard9 = \<lparr>cc_id = ''c9'', cc_item = \<lparr>item_id = Some ''c9'', item_isCard = True\<rparr>\<rparr>"

definition worldCard :: "nat world" where
  "worldCard = snd (createCard demoSrv (cardOptions (demoCardParams [])) world0)"

definition worldTasks :: "string list \<Rightarrow> nat world" where
  "worldTasks names = snd (taskPhase demoSrv ''c9'' (Some names) worldCard)"

definition worldGet :: "nat world" where
  "worldGet = snd (plankaRequest demoSrv (getReq (''/api/cards/'' @ ''c9'')) world0)"

definition taskFailure :: error where
  "taskFailure = Error ''Failed to create task: Internal Server Error''"

section \<open>Properties of the activity feed\<close>

subsection \<open>What one card contributes\<close>









subsection \<open>The traversal as a fold over the cards it reaches\<close>

lemma processCards_fold:
  "processCards env parse from to maxC bId lId cards st =
     fold (feedStep env parse from to maxC) (map (\<lambda>c. (bId, lId, c)) cards) st"
  by (induction cards arbitrary: st) simp_all

lemma processLists_fold:
  "processLists env parse from to maxC bId ls st =
     (case listCards env bId ls of
        Inl e \<Rightarrow> Inl e
      | Inr cs \<Rightarrow> Inr (fold (feedStep env parse from to maxC) cs st))"
  by (induction ls arbitrary: st) (simp_all add: processCards_fold split: sum.splits)

lemma processBoards_fold:
  "processBoards env parse from to maxC bs st =
     (case boardCards env bs of
        Inl e \<Rightarrow> Inl e
      | Inr cs \<Rightarrow> Inr (fold (feedStep env parse from to maxC) cs st))"
  by (induction bs arbitrary: st) (simp_all add: processLists_fold split: sum.splits)

lemma traverse_fold:
  "traverse env parse now params =
     (case traversedCards env (projectId params) of
        Inl e \<Rightarrow> Inl e
      | Inr cs \<Rightarrow> Inr (fold (feedStep env parse (windowFrom parse now params)
                 (windowTo parse now params) (capOf params)) cs initial))"
  by (simp add: traverse_def traversedCards_def processBoards_fold split: sum.splits)

lemma counted_cardChange:
  "counted maxC st \<Longrightarrow> counted maxC (snd (cardChange parse from to bId lId crd st))"
  by (simp add: counted_def cardChange_def isComment_def)

lemma window_cardChange:
  "allInWindow parse from to st \<Longrightarrow> allInWindow parse from to (snd (cardChange parse from to bId lId crd st))"
  by (simp add: allInWindow_def cardChange_def)

lemma counted_taskChanges:
  "counted maxC (snd acc) \<Longrightarrow> counted maxC (snd (taskChanges parse from to bId lId cId ts acc))"
proof (induction ts arbitrary: acc)
  case Nil
  then show ?case by simp
next
  case (Cons t ts)
  obtain h st where acc: "acc = (h, st)" by (cases acc)
  show ?case unfolding acc taskChanges.simps
    by (rule Cons.IH) (use Cons.prems acc in \<open>simp add: counted_def isComment_def\<close>)
qed

lemma window_taskChanges:
  "allInWindow parse from to (snd acc) \<Longrightarrow>
   allInWindow parse from to (snd (taskChanges parse from to bId lId cId ts acc))"
proof (induction ts arbitrary: acc)
  case Nil
  then show ?case by simp
next
  case (Cons t ts)
  obtain h st where acc: "acc = (h, st)" by (cases acc)
  show ?case unfolding acc taskChanges.simps
    by (rule Cons.IH) (use Cons.prems acc in \<open>simp add: allInWindow_def\<close>)
qed

lemma below_cap: "(of_nat n :: rat) < maxC \<longleftrightarrow> int n < \<lceil>maxC\<rceil>"
  by (simp add: less_ceiling_iff)

lemma counted_commentStep:
  "counted maxC st \<Longrightarrow> counted maxC (commentStep maxC bId lId cId c st)"
  by (auto simp: counted_def commentStep_def Let_def isComment_def below_cap)

lemma window_commentStep:
  "allInWindow parse from to st \<Longrightarrow> isWithinRange parse (comment_createdAt c) from to \<Longrightarrow>
   allInWindow parse from to (commentStep maxC bId lId cId c st)"
  by (auto simp: allInWindow_def commentStep_def Let_def)

lemma counted_commentChanges:
  "counted maxC (snd acc) \<Longrightarrow>
   counted maxC (snd (commentChanges parse from to maxC bId lId cId cs acc))"
proof (induction cs arbitrary: acc)
  case Nil
  then show ?case by simp
next
  case (Cons c cs)
  obtain h st where acc: "acc = (h, st)" by (cases acc)
  show ?case unfolding acc commentChanges.simps
    by (rule Cons.IH) (use Cons.prems acc in \<open>simp add: counted_commentStep\<close>)
qed

lemma window_commentChanges:
  "allInWindow parse from to (snd acc) \<Longrightarrow>
   allInWindow parse from to (snd (commentChanges parse from to maxC bId lId cId cs acc))"
proof (induction cs arbitrary: acc)
  case Nil
  then show ?case by simp
next
  case (Cons c cs)
  obtain h st where acc: "acc = (h, st)" by (cases acc)
  show ?case unfolding acc commentChanges.simps
    by (rule Cons.IH) (use Cons.prems acc in \<open>simp add: window_commentStep\<close>)
qed

lemma counted_processCard:
  "counted maxC st \<Longrightarrow> counted maxC (processCard env parse from to maxC bId lId crd st)"
proof -
  assume a: "counted maxC st"
  have "counted maxC (snd (commentChanges parse from to maxC bId lId (card_id crd)
          (commentsOf env (card_id crd))
          (taskChanges parse from to bId lId (card_id crd) (tasksOf env (card_id crd))
             (cardChange parse from to bId lId crd st))))"
    by (intro counted_commentChanges counted_taskChanges counted_cardChange a)
  then show ?thesis by (simp add: processCard_def Let_def counted_def)
qed

lemma window_processCard:
  "allInWindow parse from to st \<Longrightarrow>
   allInWindow parse from to (processCard env parse from to maxC bId lId crd st)"
proof -
  assume a: "allInWindow parse from to st"
  have "allInWindow parse from to (snd (commentChanges parse from to maxC bId lId (card_id crd)
          (commentsOf env (card_id crd))
          (taskChanges parse from to bId lId (card_id crd) (tasksOf env (card_id crd))
             (cardChange parse from to bId lId crd st))))"
    by (intro window_commentChanges window_taskChanges window_cardChange a)
  then show ?thesis by (simp add: processCard_def Let_def allInWindow_def)
qed

lemma fold_invariant:
  assumes "\<And>x s. P s \<Longrightarrow> P (f x s)" and "P s"
  shows "P (fold f xs s)"
  using assms(2) by (induction xs arbitrary: s) (simp_all add: assms(1))

lemma counted_initial: "counted maxC initial"
  by (simp add: counted_def initial_def)

lemma window_initial: "allInWindow parse from to initial"
  by (simp add: allInWindow_def initial_def)

lemma traverse_counted:
  assumes "traverse env parse now params = Inr st"
  shows "counted (capOf params) st"
proof -
  from assms obtain cs where
    st: "st = fold (feedStep env parse (windowFrom parse now params)
                 (windowTo parse now params) (capOf params)) cs initial"
    by (auto simp: traverse_fold split: sum.splits)
  show ?thesis unfolding st
    by (rule fold_invariant) (auto simp: counted_initial intro: counted_processCard)
qed

lemma traverse_window:
  assumes "traverse env parse now params = Inr st"
  shows "allInWindow parse (windowFrom parse now params) (windowTo parse now params) st"
proof -
  from assms obtain cs where
    st: "st = fold (feedStep env parse (windowFrom parse now params)
                 (windowTo parse now params) (capOf params)) cs initial"
    by (auto simp: traverse_fold split: sum.splits)
  show ?thesis unfolding st
    by (rule fold_invariant) (auto simp: window_initial intro: window_processCard)
qed

lemma update_mem: "(k, v) \<in> set (AList.update k v al)"
  by (induction al) auto

lemma update_keeps: "k' \<noteq> k \<Longrightarrow> (k', v') \<in> set al \<Longrightarrow> (k', v') \<in> set (AList.update k v al)"
  by (induction al) auto

lemma fold_reaches:
  assumes "x \<in> set xs" and "\<And>s. P (f x s)" and "\<And>y s. P s \<Longrightarrow> P (f y s)"
  shows "P (fold f xs s)"
  using assms(1)
proof (induction xs arbitrary: s)
  case Nil
  then show ?case by simp
next
  case (Cons y ys)
  show ?case
  proof (cases "x = y")
    case True
    have "P (fold f ys (f y s))"
      by (rule fold_invariant) (simp_all add: assms(2,3) True[symmetric])
    then show ?thesis by simp
  next
    case False
    with Cons show ?thesis by simp
  qed
qed

lemma cardChange_keeps:
  "newComments (snd (cardChange parse from to bId lId crd st)) = newComments st"
  "userIdsSet (snd (cardChange parse from to bId lId crd st)) = userIdsSet st"
  "affectedCardsMap (snd (cardChange parse from to bId lId crd st)) = affectedCardsMap st"
  by (simp_all add: cardChange_def)

lemma taskChanges_keeps:
  "newComments (snd (taskChanges parse from to bId lId cId ts acc)) = newComments (snd acc) \<and>
   userIdsSet (snd (taskChanges parse from to bId lId cId ts acc)) = userIdsSet (snd acc) \<and>
   affectedCardsMap (snd (taskChanges parse from to bId lId cId ts acc)) = affectedCardsMap (snd acc)"
proof (induction ts arbitrary: acc)
  case Nil
  then show ?case by simp
next
  case (Cons t ts)
  obtain h st where acc: "acc = (h, st)" by (cases acc)
  show ?case unfolding acc taskChanges.simps
    by (subst Cons.IH)+ simp
qed

lemma commentStep_effect:
  "newComments (commentStep maxC bId lId cId c st) = newComments st + 1"
  "affectedCardsMap (commentStep maxC bId lId cId c st) = affectedCardsMap st"
  "set (userIdsSet (commentStep maxC bId lId cId c st)) =
     set (userIdsSet st) \<union> {u. comment_userId c = Some u \<and> u \<noteq> []}"
  by (cases "comment_userId c"; auto simp: commentStep_def Let_def setAdd_def)+

lemma commentChanges_effect:
  "newComments (snd (commentChanges parse from to maxC bId lId cId cs acc)) =
     newComments (snd acc) + length (filter (\<lambda>cm. isWithinRange parse (comment_createdAt cm) from to) cs) \<and>
   affectedCardsMap (snd (commentChanges parse from to maxC bId lId cId cs acc)) = affectedCardsMap (snd acc) \<and>
   set (userIdsSet (snd (commentChanges parse from to maxC bId lId cId cs acc))) =
     set (userIdsSet (snd acc)) \<union>
       {u. \<exists>cm \<in> set cs. isWithinRange parse (comment_createdAt cm) from to \<and>
             comment_userId cm = Some u \<and> u \<noteq> []} \<and>
   fst (commentChanges parse from to maxC bId lId cId cs acc) =
     (fst acc \<or> (\<exists>cm \<in> set cs. isWithinRange parse (comment_createdAt cm) from to))"
proof (induction cs arbitrary: acc)
  case Nil
  then show ?case by simp
next
  case (Cons c cs)
  obtain h st where acc: "acc = (h, st)" by (cases acc)
  show ?case
  proof (cases "isWithinRange parse (comment_createdAt c) from to")
    case True
    show ?thesis unfolding acc commentChanges.simps using True
      by (simp add: Cons.IH commentStep_effect) blast
  next
    case False
    show ?thesis unfolding acc commentChanges.simps using False
      by (simp add: Cons.IH) 
  qed
qed

lemma processCard_newComments:
  "newComments (processCard env parse from to maxC bId lId crd st) =
     newComments st + length (windowComments env parse from to crd)"
  by (simp add: processCard_def Let_def commentChanges_effect taskChanges_keeps cardChange_keeps
        windowComments_def)

lemma processCard_userIds:
  "set (userIdsSet (processCard env parse from to maxC bId lId crd st)) =
     set (userIdsSet st) \<union>
       {u. \<exists>cm \<in> set (windowComments env parse from to crd). comment_userId cm = Some u \<and> u \<noteq> []}"
  by (auto simp: processCard_def Let_def commentChanges_effect taskChanges_keeps cardChange_keeps
        windowComments_def)

lemma processCard_affectedCardsMap:
  "affectedCardsMap (processCard env parse from to maxC bId lId crd st) = affectedCardsMap st \<or>
   affectedCardsMap (processCard env parse from to maxC bId lId crd st) =
     AList.update (card_id crd)
       \<lparr>ac_cardId = card_id crd, ac_cardName = card_name crd, ac_boardId = bId, ac_listId = lId\<rparr>
       (affectedCardsMap st)"
  by (simp add: processCard_def Let_def commentChanges_effect taskChanges_keeps cardChange_keeps)

lemma processCard_affects_commented:
  assumes "windowComments env parse from to crd \<noteq> []"
  shows "affects (card_id crd) (processCard env parse from to maxC bId lId crd st)"
proof -
  from assms have "\<exists>cm \<in> set (commentsOf env (card_id crd)). isWithinRange parse (comment_createdAt cm) from to"
    by (auto simp: windowComments_def filter_empty_conv)
  then have "affectedCardsMap (processCard env parse from to maxC bId lId crd st) =
     AList.update (card_id crd)
       \<lparr>ac_cardId = card_id crd, ac_cardName = card_name crd, ac_boardId = bId, ac_listId = lId\<rparr>
       (affectedCardsMap st)"
    by (simp add: processCard_def Let_def commentChanges_effect taskChanges_keeps cardChange_keeps)
  then show ?thesis unfolding affects_def
    by (metis update_mem AffectedCard.select_convs(1))
qed

lemma processCard_affects_stable:
  assumes "affects cId st"
  shows "affects cId (processCard env parse from to maxC bId lId crd st)"
proof -
  from assms obtain v where v: "(cId, v) \<in> set (affectedCardsMap st)" "ac_cardId v = cId"
    by (auto simp: affects_def)
  from processCard_affectedCardsMap[of env parse "from" to maxC bId lId crd st]
  show ?thesis
  proof
    assume "affectedCardsMap (processCard env parse from to maxC bId lId crd st) = affectedCardsMap st"
    with v show ?thesis by (auto simp: affects_def)
  next
    assume u: "affectedCardsMap (processCard env parse from to maxC bId lId crd st) =
     AList.update (card_id crd)
       \<lparr>ac_cardId = card_id crd, ac_cardName = card_name crd, ac_boardId = bId, ac_listId = lId\<rparr>
       (affectedCardsMap st)"
    show ?thesis
    proof (cases "cId = card_id crd")
      case True
      then show ?thesis unfolding affects_def u
        by (metis update_mem AffectedCard.select_convs(1))
    next
      case False
      then show ?thesis unfolding affects_def u using v update_keeps by metis
    qed
  qed
qed

lemma fold_newComments:
  "newComments (fold (feedStep env parse from to maxC) cs st) =
     newComments st + (\<Sum>x\<leftarrow>cs. length (windowComments env parse from to (snd (snd x))))"
  by (induction cs arbitrary: st) (auto simp: processCard_newComments)

lemma fold_userIds:
  assumes "(b, l, c) \<in> set cs" and "cm \<in> set (windowComments env parse from to c)"
    and "comment_userId cm = Some u" and "u \<noteq> []"
  shows "u \<in> set (userIdsSet (fold (feedStep env parse from to maxC) cs st))"
  by (rule fold_reaches[OF assms(1)]) (use assms(2-4) in \<open>auto simp: processCard_userIds\<close>)

lemma fold_affects:
  assumes "(b, l, c) \<in> set cs" and "windowComments env parse from to c \<noteq> []"
  shows "affects (card_id c) (fold (feedStep env parse from to maxC) cs st)"
  by (rule fold_reaches[OF assms(1)])
     (use assms(2) in \<open>auto simp: processCard_affects_commented processCard_affects_stable\<close>)

lemma affects_result:
  "affects cId st \<Longrightarrow> cId \<in> ac_cardId ` set (map snd (affectedCardsMap st))"
  by (force simp: affects_def)

lemma sortChanges_filter_length:
  "length (filter P (sortChanges parse xs)) = length (filter P xs)"
proof -
  have "mset (filter P (sortChanges parse xs)) = mset (filter P xs)"
    by (simp add: sortChanges_def)
  then show ?thesis by (metis size_mset)
qed

lemma getActivityFeed_Inr:
  assumes "getActivityFeed env parse now params = Inr r"
  obtains st f t where "traverse env parse now params = Inr st"
    and "windowFrom parse now params = Some f" and "windowTo parse now params = Some t"
    and "r = \<lparr>query_projectId = projectId params, query_from = f, query_to = t,
                    summary = \<lparr>totalChanges = length (sortChanges parse (changes st)),
                                s_newCards = newCards st,
                                s_updatedCards = updatedCards st,
                                s_completedCards = completedCards st,
                                s_newComments = newComments st,
                                s_newTasks = newTasks st,
                                s_completedTasks = completedTasks st\<rparr>,
                    r_changes = sortChanges parse (changes st),
                    affectedCards = map snd (affectedCardsMap st),
                    userIds = userIdsSet st\<rparr>"
  using assms by (auto simp: getActivityFeed_def split: sum.splits option.splits)

lemma isWithinRange_iff:
  "isWithinRange parse ds from to \<longleftrightarrow>
     (\<exists>s d f t. ds = Some s \<and> s \<noteq> [] \<and> parse s = Some d \<and> from = Some f \<and> to = Some t \<and>
        f \<le> d \<and> d \<le> t)"
proof (cases ds)
  case None
  then show ?thesis by (simp add: isWithinRange_def)
next
  case (Some s)
  show ?thesis
    by (cases "parse s"; cases "from"; cases to) (simp_all add: Some isWithinRange_def)
qed

lemma inWindow_instant:
  "isWithinRange parse (timestamp e) from to \<Longrightarrow> instant parse e = Some (getTime parse e)"
  by (auto simp: isWithinRange_iff instant_def getTime_def)




lemma feed_comment_count:
  assumes "getActivityFeed env parse now params = Inr r"
  shows "int (length (filter isComment (r_changes r))) =
           min (int (s_newComments (summary r))) (max 0 \<lceil>capOf params\<rceil>)"
    and "length (filter (\<lambda>e. \<not> isComment e) (r_changes r)) =
           s_newCards (summary r) + s_updatedCards (summary r) + s_completedCards (summary r) +
           s_newTasks (summary r) + s_completedTasks (summary r)"
    and "totalChanges (summary r) = length (r_changes r)"
proof -
  from assms obtain st where tr: "traverse env parse now params = Inr st"
    and r: "r_changes r = sortChanges parse (changes st)"
       "summary r = \<lparr>totalChanges = length (sortChanges parse (changes st)),
                                s_newCards = newCards st,
                                s_updatedCards = updatedCards st,
                                s_completedCards = completedCards st,
                                s_newComments = newComments st,
                                s_newTasks = newTasks st,
                                s_completedTasks = completedTasks st\<rparr>"
    by (elim getActivityFeed_Inr) simp
  have c: "counted (capOf params) st" by (rule traverse_counted[OF tr])
  show "int (length (filter isComment (r_changes r))) =
           min (int (s_newComments (summary r))) (max 0 \<lceil>capOf params\<rceil>)"
    using c by (simp add: r sortChanges_filter_length counted_def)
  show "length (filter (\<lambda>e. \<not> isComment e) (r_changes r)) =
           s_newCards (summary r) + s_updatedCards (summary r) + s_completedCards (summary r) +
           s_newTasks (summary r) + s_completedTasks (summary r)"
    using c by (simp add: r sortChanges_filter_length counted_def)
  show "totalChanges (summary r) = length (r_changes r)" by (simp add: r)
qed

lemma feed_newComments:
  assumes "getActivityFeed env parse now params = Inr r"
  shows "\<exists>cs. traversedCards env (projectId params) = Inr cs \<and>
     s_newComments (summary r) =
       (\<Sum>x\<leftarrow>cs. length (windowComments env parse (windowFrom parse now params)
                           (windowTo parse now params) (snd (snd x)))) \<and>
     (\<forall>(b, l, c) \<in> set cs.
        \<forall>cm \<in> set (windowComments env parse (windowFrom parse now params)
                      (windowTo parse now params) c).
          (\<forall>u. comment_userId cm = Some u \<and> u \<noteq> [] \<longrightarrow> u \<in> set (userIds r)) \<and>
          card_id c \<in> ac_cardId ` set (affectedCards r))"
proof -
  let ?from = "windowFrom parse now params" and ?to = "windowTo parse now params"
  from assms obtain st f t where tr: "traverse env parse now params = Inr st"
    and r: "s_newComments (summary r) = newComments st"
       "userIds r = userIdsSet st" "affectedCards r = map snd (affectedCardsMap st)"
    by (elim getActivityFeed_Inr) simp
  from tr obtain cs where cs: "traversedCards env (projectId params) = Inr cs"
    and st: "st = fold (feedStep env parse ?from ?to (capOf params)) cs initial"
    by (auto simp: traverse_fold split: sum.splits)
  have cnt: "s_newComments (summary r) =
       (\<Sum>x\<leftarrow>cs. length (windowComments env parse ?from ?to (snd (snd x))))"
    by (simp add: r(1) st fold_newComments initial_def)
  have sets: "(\<forall>u. comment_userId cm = Some u \<and> u \<noteq> [] \<longrightarrow> u \<in> set (userIds r)) \<and>
          card_id c \<in> ac_cardId ` set (affectedCards r)"
    if "(b, l, c) \<in> set cs" "cm \<in> set (windowComments env parse ?from ?to c)" for b l c cm
  proof -
    from that(2) have ne: "windowComments env parse ?from ?to c \<noteq> []" by auto
    show ?thesis
      unfolding r(2,3) st
      using fold_userIds[OF that] affects_result[OF fold_affects[OF that(1) ne]]
      by blast
  qed
  show ?thesis
    using cs cnt sets by (intro exI[of _ cs]) blast
qed

lemma ceiling_cap: "max 0 \<lceil>(of_nat N :: rat)\<rceil> = int N"
  by simp

text \<open>
  Claim C2. For a successful call with a cap that is a count \<open>N\<close>: the \<open>comment_added\<close>
  entries of \<open>changes\<close> are at most \<open>N\<close> (they are \<open>N\<close>, or all the in-window comments when
  these are fewer); \<open>summary.newComments\<close> is the number of in-window comments over all
  cards the traversal reaches, whatever \<open>N\<close> is; the user id of every such comment, a
  non-empty string, is in \<open>userIds\<close>, and its card is in \<open>affectedCards\<close>.
\<close>

theorem feed_comment_cap:
  assumes "getActivityFeed env parse now params = Inr r" and "capOf params = of_nat N"
  shows "\<exists>cs. traversedCards env (projectId params) = Inr cs \<and>
     length (filter isComment (r_changes r)) \<le> N \<and>
     s_newComments (summary r) =
       (\<Sum>x\<leftarrow>cs. length (windowComments env parse (windowFrom parse now params)
                           (windowTo parse now params) (snd (snd x)))) \<and>
     length (filter isComment (r_changes r)) = min N (s_newComments (summary r)) \<and>
     (\<forall>(b, l, c) \<in> set cs.
        \<forall>cm \<in> set (windowComments env parse (windowFrom parse now params)
                      (windowTo parse now params) c).
          (\<forall>u. comment_userId cm = Some u \<and> u \<noteq> [] \<longrightarrow> u \<in> set (userIds r)) \<and>
          card_id c \<in> ac_cardId ` set (affectedCards r))"
proof -
  have "int (length (filter isComment (r_changes r))) = min (int (s_newComments (summary r))) (int N)"
    using feed_comment_count(1)[OF assms(1)] unfolding assms(2) ceiling_cap .
  then have m: "length (filter isComment (r_changes r)) = min N (s_newComments (summary r))"
    by linarith
  then have "length (filter isComment (r_changes r)) \<le> N" by simp
  with m feed_newComments[OF assms(1)] show ?thesis by blast
qed

text \<open>
  Claim C7. In a result, every entry of \<open>changes\<close> has a valid instant and adjacent
  entries are in non-increasing order of it; \<open>changes\<close> is a rearrangement of the entries
  in traversal order that keeps the traversal order among entries of equal instant.
\<close>

theorem feed_changes_sorted:
  assumes "getActivityFeed env parse now params = Inr r"
  shows "(\<forall>i. Suc i < length (r_changes r) \<longrightarrow>
           (\<exists>a b. instant parse (r_changes r ! i) = Some a \<and>
                  instant parse (r_changes r ! Suc i) = Some b \<and> b \<le> a)) \<and>
         (\<exists>st. traverse env parse now params = Inr st \<and>
               mset (r_changes r) = mset (changes st) \<and>
               (\<forall>t. filter (\<lambda>e. instant parse e = Some t) (r_changes r) =
                    filter (\<lambda>e. instant parse e = Some t) (changes st)))"
proof -
  let ?from = "windowFrom parse now params" and ?to = "windowTo parse now params"
  let ?key = "\<lambda>e. - getTime parse e"
  from assms obtain st where tr: "traverse env parse now params = Inr st"
    and r: "r_changes r = sortChanges parse (changes st)"
    by (elim getActivityFeed_Inr) simp
  have win: "allInWindow parse ?from ?to st" by (rule traverse_window[OF tr])
  have inst: "instant parse e = Some (getTime parse e)" if "e \<in> set (changes st)" for e
    using win that by (auto simp: allInWindow_def intro: inWindow_instant)
  have srt: "sorted (map ?key (r_changes r))"
    by (simp add: r sortChanges_def sorted_sort_key)
  have adj: "\<exists>a b. instant parse (r_changes r ! i) = Some a \<and>
                  instant parse (r_changes r ! Suc i) = Some b \<and> b \<le> a"
    if "Suc i < length (r_changes r)" for i
  proof -
    from that have m: "r_changes r ! i \<in> set (changes st)" "r_changes r ! Suc i \<in> set (changes st)"
      by (metis r sortChanges_def set_sort nth_mem Suc_lessD)+
    from srt that have "map ?key (r_changes r) ! i \<le> map ?key (r_changes r) ! Suc i"
      by (intro sorted_nth_mono) simp_all
    with that have "getTime parse (r_changes r ! Suc i) \<le> getTime parse (r_changes r ! i)"
      by simp
    with inst[OF m(1)] inst[OF m(2)] show ?thesis by simp
  qed
  have stable: "filter (\<lambda>e. instant parse e = Some t) (r_changes r) =
                    filter (\<lambda>e. instant parse e = Some t) (changes st)" for t
  proof -
    have "filter (\<lambda>e. instant parse e = Some t) (r_changes r) = filter (\<lambda>e. ?key e = - t) (r_changes r)"
      by (rule filter_cong) (auto simp: r sortChanges_def inst)
    also have "\<dots> = filter (\<lambda>e. ?key e = - t) (changes st)"
      unfolding r sortChanges_def by (rule sort_key_stable)
    also have "\<dots> = filter (\<lambda>e. instant parse e = Some t) (changes st)"
      by (rule filter_cong) (auto simp: inst)
    finally show ?thesis .
  qed
  have "mset (r_changes r) = mset (changes st)" by (simp add: r sortChanges_def)
  with adj stable tr show ?thesis by blast
qed

text \<open>
  Claim C10. \<open>summary.totalChanges\<close> is the length of \<open>changes\<close>. With a cap that is a
  count \<open>N\<close>, the six counters add up to it plus the in-window comments beyond \<open>N\<close>; so
  when the in-window comments over the cards reached exceed \<open>N\<close>, \<open>totalChanges\<close> is
  strictly below the sum of the counters.
\<close>

theorem feed_totalChanges:
  assumes "getActivityFeed env parse now params = Inr r" and "capOf params = of_nat N"
  shows "\<exists>cs. traversedCards env (projectId params) = Inr cs \<and>
     totalChanges (summary r) = length (r_changes r) \<and>
     s_newComments (summary r) =
       (\<Sum>x\<leftarrow>cs. length (windowComments env parse (windowFrom parse now params)
                           (windowTo parse now params) (snd (snd x)))) \<and>
     counterSum (summary r) = totalChanges (summary r) + (s_newComments (summary r) - N) \<and>
     (N < (\<Sum>x\<leftarrow>cs. length (windowComments env parse (windowFrom parse now params)
                           (windowTo parse now params) (snd (snd x)))) \<longrightarrow>
        totalChanges (summary r) < counterSum (summary r))"
proof -
  note fc = feed_comment_count[OF assms(1)]
  have "int (length (filter isComment (r_changes r))) = min (int (s_newComments (summary r))) (int N)"
    using fc(1) unfolding assms(2) ceiling_cap .
  then have m: "length (filter isComment (r_changes r)) = min N (s_newComments (summary r))"
    by linarith
  have len: "length (r_changes r) = length (filter isComment (r_changes r)) +
      length (filter (\<lambda>e. \<not> isComment e) (r_changes r))"
    by (rule sum_length_filter_compl[symmetric])
  have eq: "counterSum (summary r) = totalChanges (summary r) + (s_newComments (summary r) - N)"
    unfolding fc(3) len m fc(2) counterSum_def by simp
  from feed_newComments[OF assms(1)] obtain cs where
    cs: "traversedCards env (projectId params) = Inr cs"
    and n: "s_newComments (summary r) =
       (\<Sum>x\<leftarrow>cs. length (windowComments env parse (windowFrom parse now params)
                           (windowTo parse now params) (snd (snd x))))"
    by blast
  have "totalChanges (summary r) < counterSum (summary r)"
    if "N < (\<Sum>x\<leftarrow>cs. length (windowComments env parse (windowFrom parse now params)
                           (windowTo parse now params) (snd (snd x))))"
    using eq that unfolding n[symmetric] by simp
  with cs fc(3) n eq show ?thesis by blast
qed

subsection \<open>The feed on the concrete project\<close>

lemma demo_feed: "getActivityFeed demoEnv demoParse demoNow (demoParams 1) = Inr demoResult"
  by code_simp

lemma demo_window:
  "windowFrom demoParse demoNow (demoParams n) = demoFrom"
  "windowTo demoParse demoNow (demoParams n) = demoTo"
  by (simp_all add: windowFrom_def windowTo_def demoParams_def demoParse_def demoFrom_def demoTo_def)

lemma demo_visits: "traversedCards demoEnv (projectId (demoParams n)) = Inr demoVisits"
proof -
  have "traversedCards demoEnv ''p1'' = Inr demoVisits" by code_simp
  then show ?thesis by (simp add: demoParams_def)
qed


lemma demo_cap: "capOf (demoParams 1) = of_nat 1"
  by (simp add: capOf_def demoParams_def)

theorem feed_comment_cap_witness:
  "getActivityFeed demoEnv demoParse demoNow (demoParams 1) = Inr demoResult \<and>
   capOf (demoParams 1) = of_nat 1 \<and>
   s_newComments (summary demoResult) = 3 \<and>
   (\<exists>cs. traversedCards demoEnv (projectId (demoParams 1)) = Inr cs \<and>
     length (filter isComment (r_changes demoResult)) \<le> 1 \<and>
     s_newComments (summary demoResult) =
       (\<Sum>x\<leftarrow>cs. length (windowComments demoEnv demoParse (windowFrom demoParse demoNow (demoParams 1))
                           (windowTo demoParse demoNow (demoParams 1)) (snd (snd x)))) \<and>
     length (filter isComment (r_changes demoResult)) = min 1 (s_newComments (summary demoResult)) \<and>
     (\<forall>(b, l, c) \<in> set cs.
        \<forall>cm \<in> set (windowComments demoEnv demoParse (windowFrom demoParse demoNow (demoParams 1))
                      (windowTo demoParse demoNow (demoParams 1)) c).
          (\<forall>u. comment_userId cm = Some u \<and> u \<noteq> [] \<longrightarrow> u \<in> set (userIds demoResult)) \<and>
          card_id c \<in> ac_cardId ` set (affectedCards demoResult)))"
proof -
  have n: "s_newComments (summary demoResult) = 3" by (simp add: demoResult_def)
  from feed_comment_cap[OF demo_feed demo_cap] demo_feed demo_cap n show ?thesis
    by (intro conjI) assumption+
qed

theorem feed_changes_sorted_witness:
  "getActivityFeed demoEnv demoParse demoNow (demoParams 1) = Inr demoResult \<and>
   Suc 0 < length (r_changes demoResult) \<and>
   (\<exists>a b. instant demoParse (r_changes demoResult ! 0) = Some a \<and>
          instant demoParse (r_changes demoResult ! Suc 0) = Some b \<and> b \<le> a)"
proof -
  have len: "Suc 0 < length (r_changes demoResult)"
    by (simp add: demoResult_def)
  from feed_changes_sorted[OF demo_feed]
  have "\<forall>i. Suc i < length (r_changes demoResult) \<longrightarrow>
           (\<exists>a b. instant demoParse (r_changes demoResult ! i) = Some a \<and>
                  instant demoParse (r_changes demoResult ! Suc i) = Some b \<and> b \<le> a)"
    by (rule conjunct1)
  with len have "\<exists>a b. instant demoParse (r_changes demoResult ! 0) = Some a \<and>
          instant demoParse (r_changes demoResult ! Suc 0) = Some b \<and> b \<le> a"
    by blast
  with demo_feed len show ?thesis by blast
qed

theorem feed_totalChanges_witness:
  "getActivityFeed demoEnv demoParse demoNow (demoParams 1) = Inr demoResult \<and>
   capOf (demoParams 1) = of_nat 1 \<and>
   traversedCards demoEnv (projectId (demoParams 1)) = Inr demoVisits \<and>
   1 < (\<Sum>x\<leftarrow>demoVisits. length (windowComments demoEnv demoParse (windowFrom demoParse demoNow (demoParams 1))
                           (windowTo demoParse demoNow (demoParams 1)) (snd (snd x)))) \<and>
   totalChanges (summary demoResult) = length (r_changes demoResult) \<and>
   totalChanges (summary demoResult) < counterSum (summary demoResult)"
proof -
  have a: "1 < (\<Sum>x\<leftarrow>demoVisits. length (windowComments demoEnv demoParse demoFrom demoTo (snd (snd x))))"
    by code_simp
  from feed_totalChanges[OF demo_feed demo_cap] obtain cs where
    cs: "traversedCards demoEnv (projectId (demoParams 1)) = Inr cs"
    and t: "totalChanges (summary demoResult) = length (r_changes demoResult)"
    and i: "1 < (\<Sum>x\<leftarrow>cs. length (windowComments demoEnv demoParse (windowFrom demoParse demoNow (demoParams 1))
                           (windowTo demoParse demoNow (demoParams 1)) (snd (snd x)))) \<longrightarrow>
        totalChanges (summary demoResult) < counterSum (summary demoResult)"
    by blast
  from cs have eq: "cs = demoVisits" unfolding demo_visits by simp
  from i a have "totalChanges (summary demoResult) < counterSum (summary demoResult)"
    unfolding eq demo_window by blast
  with demo_feed demo_cap demo_visits[of 1] a t show ?thesis
    unfolding demo_window by blast
qed

section \<open>Properties of the board summary\<close>

lemma promiseAll_Inr:
  "promiseAll f xs = Inr ys \<longleftrightarrow> list_all2 (\<lambda>x y. f x = Inr y) xs ys"
proof (induction xs arbitrary: ys)
  case Nil
  then show ?case by auto
next
  case (Cons x xs)
  show ?case
  proof (cases "f x")
    case (Inl e)
    then show ?thesis by (auto simp: list_all2_Cons1)
  next
    case fx: (Inr y)
    show ?thesis
    proof (cases "promiseAll f xs")
      case (Inl e)
      with Cons.IH have "\<not> list_all2 (\<lambda>x y. f x = Inr y) xs zs" for zs
        by (metis sum.distinct(1))
      with Inl fx show ?thesis by (auto simp: list_all2_Cons1)
    next
      case (Inr zs)
      with Cons.IH have "list_all2 (\<lambda>x y. f x = Inr y) xs ws \<longleftrightarrow> ws = zs" for ws
        by (metis sum.inject(2))
      with Inr fx show ?thesis by (auto simp: list_all2_Cons1)
    qed
  qed
qed

lemma promiseAll_isl:
  "isl (promiseAll f xs) \<longleftrightarrow> (\<exists>x \<in> set xs. isl (f x))"
  by (induction xs) (auto split: sum.splits)

lemma cardWithDetails_isl:
  "isl (cardWithDetails env it ic crd) \<longleftrightarrow> cardFailure env it ic crd"
  by (auto simp: cardWithDetails_def cardFailure_def Let_def split: sum.splits)

lemma listWithCards_isl:
  "isl (listWithCards env it ic l) \<longleftrightarrow> listFailure env it ic l"
proof (cases "getCards env (list_id l)")
  case (Inl e)
  then show ?thesis by (simp add: listWithCards_def listFailure_def)
next
  case (Inr cards)
  have "isl (listWithCards env it ic l) \<longleftrightarrow> isl (promiseAll (cardWithDetails env it ic) cards)"
    by (simp add: listWithCards_def Inr split: sum.splits)
  then show ?thesis
    by (simp add: promiseAll_isl cardWithDetails_isl listFailure_def Inr)
qed

lemma getBoardSummary_isl:
  assumes "getBoard env (gbs_boardId params) = Inr (Some board)"
  shows "isl (getBoardSummary env lower params) \<longleftrightarrow> nestedFailure env params"
proof (cases "getLists env (gbs_boardId params)")
  case (Inl e)
  then show ?thesis using assms by (simp add: getBoardSummary_def nestedFailure_def)
next
  case (Inr ls)
  show ?thesis
  proof (cases "promiseAll (listWithCards env (includeTaskDetails params) (includeComments params)) ls")
    case (Inl e)
    then have "isl (promiseAll (listWithCards env (includeTaskDetails params) (includeComments params)) ls)"
      by simp
    then have "\<exists>l \<in> set ls. listFailure env (includeTaskDetails params) (includeComments params) l"
      by (simp add: promiseAll_isl listWithCards_isl)
    with Inl Inr assms show ?thesis by (simp add: getBoardSummary_def nestedFailure_def)
  next
    case lw: (Inr lwc)
    then have "\<not> isl (promiseAll (listWithCards env (includeTaskDetails params) (includeComments params)) ls)"
      by simp
    then have no: "\<not> (\<exists>l \<in> set ls. listFailure env (includeTaskDetails params) (includeComments params) l)"
      by (simp add: promiseAll_isl listWithCards_isl)
    show ?thesis
      using assms Inr lw no
      by (cases "getLabels env (gbs_boardId params)")
         (simp_all add: getBoardSummary_def nestedFailure_def Let_def)
  qed
qed

lemma repoAccessors_simps:
  "getBoards (repoAccessors fetch boardsOf boardOf) = boardsOf"
  "getBoard (repoAccessors fetch boardsOf boardOf) = boardOf"
  "getLists (repoAccessors fetch boardsOf boardOf) bId = Inr (lists_getLists fetch bId)"
  "getCards (repoAccessors fetch boardsOf boardOf) lId = Inr (cards_getCards fetch lId)"
  "getTasks (repoAccessors fetch boardsOf boardOf) cId = Inr (tasks_getTasks fetch cId)"
  "getComments (repoAccessors fetch boardsOf boardOf) cId = Inr (comments_getComments fetch cId)"
  "getLabels (repoAccessors fetch boardsOf boardOf) bId = Inr (labels_getLabels fetch bId)"
  by (simp_all add: repoAccessors_def)

lemma repoAccessors_no_failure:
  "\<not> nestedFailure (repoAccessors fetch boardsOf boardOf) params"
  by (simp add: nestedFailure_def listFailure_def cardFailure_def repoAccessors_simps)

lemma failed_fetch_empty:
  "isl (fetch (getReq (''/api/cards/'' @ cId @ ''/comments''))) \<Longrightarrow> comments_getComments fetch cId = []"
  "isl (fetch (getReq (''/api/cards/'' @ cId))) \<Longrightarrow> tasks_getTasks fetch cId = []"
  "isl (fetch (getReq (''/api/boards/'' @ bId))) \<Longrightarrow> labels_getLabels fetch bId = []"
  "isl (fetch (getReq (''/api/boards/'' @ bId))) \<Longrightarrow> lists_getLists fetch bId = []"
  "isl (fetch (getReq ''/api/projects'')) \<Longrightarrow> cards_getCards fetch lId = []"
  by (auto simp: comments_getComments_def tasks_getTasks_def labels_getLabels_def
        lists_getLists_def cards_getCards_def split: sum.splits)

lemma getBoardSummary_Inr:
  assumes "getBoardSummary env lower params = Inr s"
  obtains board allLists boardLabels where
    "getBoard env (gbs_boardId params) = Inr (Some board)"
    "getLists env (gbs_boardId params) = Inr allLists"
    "promiseAll (listWithCards env (includeTaskDetails params) (includeComments params)) allLists
       = Inr (bs_lists s)"
    "getLabels env (gbs_boardId params) = Inr boardLabels"
    "bs_board s = board" "bs_labels s = boardLabels"
    "totalCards (stats s) = foldl (\<lambda>sum l. sum + cardCount l) 0 (bs_lists s)"
    "backlogCount (stats s) = countOf (namedList lower ''backlog'' (bs_lists s))"
    "inProgressCount (stats s) = countOf (namedList lower ''in progress'' (bs_lists s))"
    "testingCount (stats s) = countOf (namedList lower ''testing'' (bs_lists s))"
    "doneCount (stats s) = countOf (namedList lower ''done'' (bs_lists s))"
    "completionPercentage (stats s) = percentOf (doneCount (stats s)) (totalCards (stats s))"
    "nextActionSuggestion (workflowState s) =
       getNextActionSuggestion (backlogCount (stats s)) (inProgressCount (stats s))
         (testingCount (stats s))"
  using assms
  by (auto simp: getBoardSummary_def Let_def split: sum.splits option.splits)

lemma listWithCards_Inr:
  assumes "listWithCards env it ic l = Inr lw"
  obtains cards where "getCards env (list_id l) = Inr cards"
    "promiseAll (cardWithDetails env it ic) cards = Inr (lwc_cards lw)"
    "lwc_list lw = l" "cardCount lw = length (lwc_cards lw)"
  using assms by (auto simp: listWithCards_def split: sum.splits)

lemma cardWithDetails_Inr:
  assumes "cardWithDetails env it ic crd = Inr cw"
  shows "cwd_card cw = crd"
    "it \<Longrightarrow> \<exists>ts. getTasks env (card_id crd) = Inr ts \<and>
       cwd_tasks cw = Some \<lparr>ts_items = ts, ts_total = length ts,
          ts_completed = length (filter task_isCompleted ts),
          ts_completionPercentage = percentOf (length (filter task_isCompleted ts)) (length ts)\<rparr>"
    "\<not> it \<Longrightarrow> cwd_tasks cw = None"
    "ic \<Longrightarrow> \<exists>cs. getComments env (card_id crd) = Inr cs \<and> cwd_comments cw = Some cs"
    "\<not> ic \<Longrightarrow> cwd_comments cw = None"
  using assms by (auto simp: cardWithDetails_def Let_def split: sum.splits if_splits)

lemma list_all2_right:
  "list_all2 P xs ys \<Longrightarrow> y \<in> set ys \<Longrightarrow> \<exists>x \<in> set xs. P x y"
  by (induction rule: list_all2_induct) auto

lemma list_all2_map_eq:
  "list_all2 (\<lambda>x y. f y = x) xs ys \<Longrightarrow> map f ys = xs"
  by (induction rule: list_all2_induct) auto

lemma summary_lists:
  assumes "getBoardSummary env lower params = Inr s"
  shows "\<exists>allLists. getLists env (gbs_boardId params) = Inr allLists \<and>
            map lwc_list (bs_lists s) = allLists \<and>
            (\<forall>l \<in> set (bs_lists s).
               getCards env (list_id (lwc_list l)) = Inr (map cwd_card (lwc_cards l)) \<and>
               cardCount l = length (lwc_cards l))"
proof -
  let ?it = "includeTaskDetails params" and ?ic = "includeComments params"
  from assms obtain allLists where
    ls: "getLists env (gbs_boardId params) = Inr allLists" and
    pa: "promiseAll (listWithCards env ?it ?ic) allLists = Inr (bs_lists s)"
    by (elim getBoardSummary_Inr)
  from pa have a2: "list_all2 (\<lambda>l lw. listWithCards env ?it ?ic l = Inr lw) allLists (bs_lists s)"
    by (simp add: promiseAll_Inr)
  then have "list_all2 (\<lambda>l lw. lwc_list lw = l) allLists (bs_lists s)"
    by (rule list_all2_mono) (auto elim: listWithCards_Inr)
  then have m: "map lwc_list (bs_lists s) = allLists" by (rule list_all2_map_eq)
  have each: "getCards env (list_id (lwc_list lw)) = Inr (map cwd_card (lwc_cards lw)) \<and>
               cardCount lw = length (lwc_cards lw)" if "lw \<in> set (bs_lists s)" for lw
  proof -
    from list_all2_right[OF a2 that] obtain l where l: "listWithCards env ?it ?ic l = Inr lw"
      by blast
    then obtain cards where c: "getCards env (list_id l) = Inr cards"
      "promiseAll (cardWithDetails env ?it ?ic) cards = Inr (lwc_cards lw)"
      "lwc_list lw = l" "cardCount lw = length (lwc_cards lw)"
      by (elim listWithCards_Inr)
    from c(2) have "list_all2 (\<lambda>c cw. cardWithDetails env ?it ?ic c = Inr cw) cards (lwc_cards lw)"
      by (simp add: promiseAll_Inr)
    then have "list_all2 (\<lambda>c cw. cwd_card cw = c) cards (lwc_cards lw)"
      by (rule list_all2_mono) (simp add: cardWithDetails_Inr(1))
    then have "map cwd_card (lwc_cards lw) = cards" by (rule list_all2_map_eq)
    with c show ?thesis by simp
  qed
  from ls m each show ?thesis by blast
qed

lemma countOf_first:
  assumes "\<forall>lw \<in> set lws. getCards env (list_id (lwc_list lw)) = Inr (map cwd_card (lwc_cards lw)) \<and>
             cardCount lw = length (lwc_cards lw)"
  shows "0 < countOf (namedList lower wanted lws) \<longleftrightarrow>
           firstHasCards env lower wanted (map lwc_list lws)"
  using assms
proof (induction lws)
  case Nil
  then show ?case by (simp add: namedList_def countOf_def firstHasCards_def firstNamed_def)
next
  case (Cons lw lws)
  show ?case
  proof (cases "named lower wanted (lwc_list lw)")
    case True
    then have "namedList lower wanted (lw # lws) = Some lw"
      by (simp add: namedList_def named_def)
    moreover from True have "firstNamed lower wanted (map lwc_list (lw # lws)) = Some (lwc_list lw)"
      by (simp add: firstNamed_def)
    ultimately show ?thesis
      using Cons.prems by (simp add: countOf_def firstHasCards_def cardsOfList_def)
  next
    case False
    then have "namedList lower wanted (lw # lws) = namedList lower wanted lws"
      by (simp add: namedList_def named_def)
    moreover from False have "firstNamed lower wanted (map lwc_list (lw # lws)) =
        firstNamed lower wanted (map lwc_list lws)"
      by (simp add: firstNamed_def)
    ultimately show ?thesis
      using Cons.IH Cons.prems by (simp add: firstHasCards_def)
  qed
qed

lemma first_is_some:
  assumes "nameOnce lower wanted ls"
  shows "firstHasCards env lower wanted ls \<longleftrightarrow> someHasCards env lower wanted ls"
proof -
  have s: "someHasCards env lower wanted ls \<longleftrightarrow>
      (\<exists>l \<in> set (filter (named lower wanted) ls). cardsOfList env l \<noteq> [])"
    by (auto simp: someHasCards_def)
  show ?thesis
  proof (cases "filter (named lower wanted) ls")
    case Nil
    then show ?thesis unfolding s by (simp add: firstHasCards_def firstNamed_def)
  next
    case (Cons l rest)
    with assms have "rest = []" by (simp add: nameOnce_def)
    with Cons show ?thesis unfolding s by (simp add: firstHasCards_def firstNamed_def)
  qed
qed

lemma first_absent:
  assumes "\<forall>l \<in> set ls. \<not> named lower wanted l"
  shows "\<not> firstHasCards env lower wanted ls"
proof -
  from assms have "filter (named lower wanted) ls = []" by (simp add: filter_empty_conv)
  then show ?thesis by (simp add: firstHasCards_def firstNamed_def)
qed

text \<open>
  Claim C6, as amended. The suggestion follows a chain in which the first match wins,
  over the lists of the board taken by lower-cased name, the first list under each name:
  that \<open>testing\<close> list has a card, else that \<open>in progress\<close> list has one, else that
  \<open>backlog\<close> list has one, else the generic suggestion. On a board where each of the
  three names is borne by at most one list, these are the lists so named. A board with
  none of the three names gets the generic suggestion.
\<close>

theorem summary_suggestion:
  assumes "getBoardSummary env lower params = Inr s"
  shows "\<exists>ls. getLists env (gbs_boardId params) = Inr ls \<and>
     nextActionSuggestion (workflowState s) =
       (if firstHasCards env lower ''testing'' ls
          then ''Review cards in Testing that need feedback''
        else if firstHasCards env lower ''in progress'' ls
          then ''Continue working on cards in In Progress''
        else if firstHasCards env lower ''backlog'' ls
          then ''Start working on a card from Backlog''
        else ''All tasks complete! Create new cards or projects'') \<and>
     (nameOnce lower ''testing'' ls \<and> nameOnce lower ''in progress'' ls \<and>
      nameOnce lower ''backlog'' ls \<longrightarrow>
        nextActionSuggestion (workflowState s) =
          (if someHasCards env lower ''testing'' ls
             then ''Review cards in Testing that need feedback''
           else if someHasCards env lower ''in progress'' ls
             then ''Continue working on cards in In Progress''
           else if someHasCards env lower ''backlog'' ls
             then ''Start working on a card from Backlog''
           else ''All tasks complete! Create new cards or projects'')) \<and>
     ((\<forall>l \<in> set ls. \<not> named lower ''testing'' l \<and> \<not> named lower ''in progress'' l \<and>
                      \<not> named lower ''backlog'' l) \<longrightarrow>
        nextActionSuggestion (workflowState s) =
          ''All tasks complete! Create new cards or projects'')"
proof -
  from summary_lists[OF assms] obtain ls where
    ls: "getLists env (gbs_boardId params) = Inr ls" "map lwc_list (bs_lists s) = ls"
    and each: "\<forall>lw \<in> set (bs_lists s).
        getCards env (list_id (lwc_list lw)) = Inr (map cwd_card (lwc_cards lw)) \<and>
        cardCount lw = length (lwc_cards lw)"
    by blast
  from assms have sug: "nextActionSuggestion (workflowState s) =
       getNextActionSuggestion (countOf (namedList lower ''backlog'' (bs_lists s)))
         (countOf (namedList lower ''in progress'' (bs_lists s)))
         (countOf (namedList lower ''testing'' (bs_lists s)))"
    by (elim getBoardSummary_Inr) simp
  have chain: "nextActionSuggestion (workflowState s) =
       (if firstHasCards env lower ''testing'' ls
          then ''Review cards in Testing that need feedback''
        else if firstHasCards env lower ''in progress'' ls
          then ''Continue working on cards in In Progress''
        else if firstHasCards env lower ''backlog'' ls
          then ''Start working on a card from Backlog''
        else ''All tasks complete! Create new cards or projects'')"
    unfolding sug getNextActionSuggestion_def countOf_first[OF each] ls(2) ..
  have once: "nextActionSuggestion (workflowState s) =
          (if someHasCards env lower ''testing'' ls
             then ''Review cards in Testing that need feedback''
           else if someHasCards env lower ''in progress'' ls
             then ''Continue working on cards in In Progress''
           else if someHasCards env lower ''backlog'' ls
             then ''Start working on a card from Backlog''
           else ''All tasks complete! Create new cards or projects'')"
    if "nameOnce lower ''testing'' ls" "nameOnce lower ''in progress'' ls"
       "nameOnce lower ''backlog'' ls"
    unfolding chain using that by (simp add: first_is_some)
  have generic: "nextActionSuggestion (workflowState s) =
          ''All tasks complete! Create new cards or projects''"
    if "\<forall>l \<in> set ls. \<not> named lower ''testing'' l \<and> \<not> named lower ''in progress'' l \<and>
                      \<not> named lower ''backlog'' l"
  proof -
    from that have "\<not> firstHasCards env lower ''testing'' ls"
      "\<not> firstHasCards env lower ''in progress'' ls" "\<not> firstHasCards env lower ''backlog'' ls"
      by (auto intro!: first_absent)
    then show ?thesis unfolding chain by simp
  qed
  from ls(1) chain once generic show ?thesis by blast
qed

lemma summary_cards:
  assumes "getBoardSummary env lower params = Inr s"
    and "l \<in> set (bs_lists s)" and "c \<in> set (lwc_cards l)"
  shows "cardWithDetails env (includeTaskDetails params) (includeComments params) (cwd_card c) = Inr c"
proof -
  let ?it = "includeTaskDetails params" and ?ic = "includeComments params"
  from assms(1) obtain allLists where
    pa: "promiseAll (listWithCards env ?it ?ic) allLists = Inr (bs_lists s)"
    by (elim getBoardSummary_Inr)
  then have "list_all2 (\<lambda>l lw. listWithCards env ?it ?ic l = Inr lw) allLists (bs_lists s)"
    by (simp add: promiseAll_Inr)
  from list_all2_right[OF this assms(2)] obtain l0 where "listWithCards env ?it ?ic l0 = Inr l"
    by blast
  then obtain cards where "promiseAll (cardWithDetails env ?it ?ic) cards = Inr (lwc_cards l)"
    by (elim listWithCards_Inr)
  then have "list_all2 (\<lambda>c cw. cardWithDetails env ?it ?ic c = Inr cw) cards (lwc_cards l)"
    by (simp add: promiseAll_Inr)
  from list_all2_right[OF this assms(3)] obtain c0 where c0: "cardWithDetails env ?it ?ic c0 = Inr c"
    by blast
  then have "cwd_card c = c0" by (rule cardWithDetails_Inr(1))
  with c0 show ?thesis by simp
qed

lemma repoWith_simps:
  "getBoards (repoWith fetch boardsOf boardOf commentsFor) = boardsOf"
  "getBoard (repoWith fetch boardsOf boardOf commentsFor) = boardOf"
  "getLists (repoWith fetch boardsOf boardOf commentsFor) bId = Inr (lists_getLists fetch bId)"
  "getCards (repoWith fetch boardsOf boardOf commentsFor) lId = Inr (cards_getCards fetch lId)"
  "getTasks (repoWith fetch boardsOf boardOf commentsFor) cId = Inr (tasks_getTasks fetch cId)"
  "getComments (repoWith fetch boardsOf boardOf commentsFor) = commentsFor"
  "getLabels (repoWith fetch boardsOf boardOf commentsFor) bId = Inr (labels_getLabels fetch bId)"
  by (simp_all add: repoWith_def repoAccessors_def)

lemma repoWith_failure:
  "nestedFailure (repoWith fetch boardsOf boardOf commentsFor) params \<longleftrightarrow>
     includeComments params \<and>
     (\<exists>l \<in> set (lists_getLists fetch (gbs_boardId params)).
        \<exists>c \<in> set (cards_getCards fetch (list_id l)). isl (commentsFor (card_id c)))"
  by (auto simp: nestedFailure_def listFailure_def cardFailure_def repoWith_simps)

text \<open>
  Claim C1, as amended. On a board that exists, \<open>getBoardSummary\<close> fails exactly when
  one of the accessor calls it makes fails: it catches nothing itself. With the
  repository's accessors of lists, cards, tasks and labels, which answer a failed request
  with the empty array, the call fails only when the accessor of comments is called and
  fails; in a summary that is returned, the lists and labels, the cards and the tasks
  whose request failed are empty.
\<close>

theorem summary_failure_policy:
  assumes "boardOf (gbs_boardId params) = Inr (Some board)"
  shows "(getBoard env = boardOf \<longrightarrow>
            (isl (getBoardSummary env lower params) \<longleftrightarrow> nestedFailure env params)) \<and>
         (isl (getBoardSummary (repoWith fetch boardsOf boardOf commentsFor) lower params) \<longleftrightarrow>
            includeComments params \<and>
            (\<exists>l \<in> set (lists_getLists fetch (gbs_boardId params)).
               \<exists>c \<in> set (cards_getCards fetch (list_id l)). isl (commentsFor (card_id c)))) \<and>
         (\<forall>s. getBoardSummary (repoWith fetch boardsOf boardOf commentsFor) lower params = Inr s \<longrightarrow>
              (isl (fetch (getReq (''/api/boards/'' @ gbs_boardId params))) \<longrightarrow>
                 bs_labels s = [] \<and> bs_lists s = []) \<and>
              (\<forall>l \<in> set (bs_lists s).
                 (isl (fetch (getReq ''/api/projects'')) \<longrightarrow> lwc_cards l = []) \<and>
                 (\<forall>c \<in> set (lwc_cards l).
                    includeTaskDetails params \<and>
                    isl (fetch (getReq (''/api/cards/'' @ card_id (cwd_card c)))) \<longrightarrow>
                      (\<exists>t. cwd_tasks c = Some t \<and> ts_items t = []))))"
proof -
  let ?repo = "repoWith fetch boardsOf boardOf commentsFor"
  have A: "isl (getBoardSummary env lower params) \<longleftrightarrow> nestedFailure env params"
    if "getBoard env = boardOf"
    using assms that by (intro getBoardSummary_isl[of env params board]) simp
  have gb: "getBoard ?repo (gbs_boardId params) = Inr (Some board)"
    using assms by (simp add: repoWith_simps)
  have B: "isl (getBoardSummary ?repo lower params) \<longleftrightarrow>
            includeComments params \<and>
            (\<exists>l \<in> set (lists_getLists fetch (gbs_boardId params)).
               \<exists>c \<in> set (cards_getCards fetch (list_id l)). isl (commentsFor (card_id c)))"
    unfolding getBoardSummary_isl[OF gb] repoWith_failure ..
  have C: "(isl (fetch (getReq (''/api/boards/'' @ gbs_boardId params))) \<longrightarrow>
                 bs_labels s = [] \<and> bs_lists s = []) \<and>
              (\<forall>l \<in> set (bs_lists s).
                 (isl (fetch (getReq ''/api/projects'')) \<longrightarrow> lwc_cards l = []) \<and>
                 (\<forall>c \<in> set (lwc_cards l).
                    includeTaskDetails params \<and>
                    isl (fetch (getReq (''/api/cards/'' @ card_id (cwd_card c)))) \<longrightarrow>
                      (\<exists>t. cwd_tasks c = Some t \<and> ts_items t = [])))"
    if s: "getBoardSummary ?repo lower params = Inr s" for s
  proof -
    from summary_lists[OF s] have
      ls: "map lwc_list (bs_lists s) = lists_getLists fetch (gbs_boardId params)"
      and cs: "\<forall>l \<in> set (bs_lists s).
          map cwd_card (lwc_cards l) = cards_getCards fetch (list_id (lwc_list l))"
      by (auto simp: repoWith_simps)
    have lab: "bs_labels s = [] \<and> bs_lists s = []"
      if f: "isl (fetch (getReq (''/api/boards/'' @ gbs_boardId params)))"
    proof -
      from s f have "bs_labels s = []"
        by (elim getBoardSummary_Inr) (simp add: repoWith_simps failed_fetch_empty)
      moreover from ls f have "bs_lists s = []" by (simp add: failed_fetch_empty)
      ultimately show ?thesis by simp
    qed
    have crds: "lwc_cards l = []"
      if "l \<in> set (bs_lists s)" "isl (fetch (getReq ''/api/projects''))" for l
      using cs that by (simp add: failed_fetch_empty)
    have tsk: "\<exists>t. cwd_tasks c = Some t \<and> ts_items t = []"
      if "l \<in> set (bs_lists s)" "c \<in> set (lwc_cards l)" "includeTaskDetails params"
         "isl (fetch (getReq (''/api/cards/'' @ card_id (cwd_card c))))" for l c
    proof -
      note cw = summary_cards[OF s that(1,2)]
      show ?thesis
        using cardWithDetails_Inr(2)[OF cw that(3)] that(4)
        by (auto simp: repoWith_simps failed_fetch_empty)
    qed
    from lab crds tsk show ?thesis by blast
  qed
  from A B C show ?thesis by blast
qed

lemma summary_percentages:
  assumes "getBoardSummary env lower params = Inr s"
  shows "completionPercentage (stats s) = percentOf (doneCount (stats s)) (totalCards (stats s))"
    and "l \<in> set (bs_lists s) \<Longrightarrow> c \<in> set (lwc_cards l) \<Longrightarrow> cwd_tasks c = Some t \<Longrightarrow>
          ts_completionPercentage t = percentOf (ts_completed t) (ts_total t)"
proof -
  show "completionPercentage (stats s) = percentOf (doneCount (stats s)) (totalCards (stats s))"
    using assms by (elim getBoardSummary_Inr)
next
  assume a: "l \<in> set (bs_lists s)" "c \<in> set (lwc_cards l)" "cwd_tasks c = Some t"
  note cw = summary_cards[OF assms a(1,2)]
  show "ts_completionPercentage t = percentOf (ts_completed t) (ts_total t)"
    using cardWithDetails_Inr(2,3)[OF cw] a(3)
    by (cases "includeTaskDetails params") auto
qed

lemma scenario_summary:
  "getBoardSummary scenarioEnv asciiLower (scenarioParams False False) = Inr scenarioSummary"
  by code_simp

lemma summary_exists:
  assumes "\<not> isl (getBoardSummary env lower params)"
  shows "\<exists>s. getBoardSummary env lower params = Inr s"
  using assms by (cases "getBoardSummary env lower params") auto

theorem summary_suggestion_witness:
  "(\<exists>s. getBoardSummary (boardEnv reviewLists reviewCards) asciiLower (scenarioParams False False) = Inr s \<and>
        getLists (boardEnv reviewLists reviewCards) (gbs_boardId (scenarioParams False False)) = Inr reviewLists \<and>
        nameOnce asciiLower ''testing'' reviewLists \<and> nameOnce asciiLower ''in progress'' reviewLists \<and>
        nameOnce asciiLower ''backlog'' reviewLists \<and>
        firstHasCards (boardEnv reviewLists reviewCards) asciiLower ''testing'' reviewLists \<and>
        someHasCards (boardEnv reviewLists reviewCards) asciiLower ''testing'' reviewLists \<and>
        nextActionSuggestion (workflowState s) = ''Review cards in Testing that need feedback'') \<and>
   (\<exists>s. getBoardSummary tieEnv asciiLower (scenarioParams False False) = Inr s \<and>
        nextActionSuggestion (workflowState s) = ''Continue working on cards in In Progress'') \<and>
   (\<exists>s. getBoardSummary scenarioEnv asciiLower (scenarioParams False False) = Inr s \<and>
        nextActionSuggestion (workflowState s) = ''Start working on a card from Backlog'') \<and>
   (\<exists>s. getBoardSummary (boardEnv otherLists reviewCards) asciiLower (scenarioParams False False) = Inr s \<and>
        nextActionSuggestion (workflowState s) = ''All tasks complete! Create new cards or projects'')"
proof -
  let ?p = "scenarioParams False False"
  have review: "\<exists>s. getBoardSummary (boardEnv reviewLists reviewCards) asciiLower ?p = Inr s \<and>
        getLists (boardEnv reviewLists reviewCards) (gbs_boardId ?p) = Inr reviewLists \<and>
        nameOnce asciiLower ''testing'' reviewLists \<and> nameOnce asciiLower ''in progress'' reviewLists \<and>
        nameOnce asciiLower ''backlog'' reviewLists \<and>
        firstHasCards (boardEnv reviewLists reviewCards) asciiLower ''testing'' reviewLists \<and>
        someHasCards (boardEnv reviewLists reviewCards) asciiLower ''testing'' reviewLists \<and>
        nextActionSuggestion (workflowState s) = ''Review cards in Testing that need feedback''"
  proof -
    let ?env = "boardEnv reviewLists reviewCards"
    have "\<not> isl (getBoardSummary ?env asciiLower ?p)" by code_simp
    then obtain s where s: "getBoardSummary ?env asciiLower ?p = Inr s"
      using summary_exists by blast
    have g: "getLists ?env (gbs_boardId ?p) = Inr reviewLists" by code_simp
    have o: "nameOnce asciiLower ''testing'' reviewLists"
      "nameOnce asciiLower ''in progress'' reviewLists" "nameOnce asciiLower ''backlog'' reviewLists"
      by code_simp+
    have f: "firstHasCards ?env asciiLower ''testing'' reviewLists" by code_simp
    have e: "someHasCards ?env asciiLower ''testing'' reviewLists" by code_simp
    from summary_suggestion[OF s] obtain ls where
      ls: "getLists ?env (gbs_boardId ?p) = Inr ls"
      and c: "nextActionSuggestion (workflowState s) =
        (if firstHasCards ?env asciiLower ''testing'' ls
           then ''Review cards in Testing that need feedback''
         else if firstHasCards ?env asciiLower ''in progress'' ls
           then ''Continue working on cards in In Progress''
         else if firstHasCards ?env asciiLower ''backlog'' ls
           then ''Start working on a card from Backlog''
         else ''All tasks complete! Create new cards or projects'')"
      by blast
    from ls g have eq: "ls = reviewLists" by simp
    from c f have "nextActionSuggestion (workflowState s) = ''Review cards in Testing that need feedback''"
      unfolding eq by (simp only: if_True)
    with s g o f e show ?thesis by blast
  qed
  have tie: "\<exists>s. getBoardSummary tieEnv asciiLower ?p = Inr s \<and>
        nextActionSuggestion (workflowState s) = ''Continue working on cards in In Progress''"
  proof -
    have "\<not> isl (getBoardSummary tieEnv asciiLower ?p)" by code_simp
    then obtain s where s: "getBoardSummary tieEnv asciiLower ?p = Inr s"
      using summary_exists by blast
    have f: "case getLists tieEnv (gbs_boardId ?p) of Inl e \<Rightarrow> False
       | Inr ls \<Rightarrow> \<not> firstHasCards tieEnv asciiLower ''testing'' ls \<and>
                   firstHasCards tieEnv asciiLower ''in progress'' ls"
      by code_simp
    from summary_suggestion[OF s] obtain ls where
      ls: "getLists tieEnv (gbs_boardId ?p) = Inr ls"
      and c: "nextActionSuggestion (workflowState s) =
        (if firstHasCards tieEnv asciiLower ''testing'' ls
           then ''Review cards in Testing that need feedback''
         else if firstHasCards tieEnv asciiLower ''in progress'' ls
           then ''Continue working on cards in In Progress''
         else if firstHasCards tieEnv asciiLower ''backlog'' ls
           then ''Start working on a card from Backlog''
         else ''All tasks complete! Create new cards or projects'')"
      by blast
    from f ls have "\<not> firstHasCards tieEnv asciiLower ''testing'' ls"
      "firstHasCards tieEnv asciiLower ''in progress'' ls" by simp_all
    with c have "nextActionSuggestion (workflowState s) = ''Continue working on cards in In Progress''"
      by (simp only: if_True if_False)
    with s show ?thesis by blast
  qed
  have backlog: "\<exists>s. getBoardSummary scenarioEnv asciiLower ?p = Inr s \<and>
        nextActionSuggestion (workflowState s) = ''Start working on a card from Backlog''"
  proof -
    have "\<not> isl (getBoardSummary scenarioEnv asciiLower ?p)" by code_simp
    then obtain s where s: "getBoardSummary scenarioEnv asciiLower ?p = Inr s"
      using summary_exists by blast
    have f: "case getLists scenarioEnv (gbs_boardId ?p) of Inl e \<Rightarrow> False
       | Inr ls \<Rightarrow> \<not> firstHasCards scenarioEnv asciiLower ''testing'' ls \<and>
                   \<not> firstHasCards scenarioEnv asciiLower ''in progress'' ls \<and>
                   firstHasCards scenarioEnv asciiLower ''backlog'' ls"
      by code_simp
    from summary_suggestion[OF s] obtain ls where
      ls: "getLists scenarioEnv (gbs_boardId ?p) = Inr ls"
      and c: "nextActionSuggestion (workflowState s) =
        (if firstHasCards scenarioEnv asciiLower ''testing'' ls
           then ''Review cards in Testing that need feedback''
         else if firstHasCards scenarioEnv asciiLower ''in progress'' ls
           then ''Continue working on cards in In Progress''
         else if firstHasCards scenarioEnv asciiLower ''backlog'' ls
           then ''Start working on a card from Backlog''
         else ''All tasks complete! Create new cards or projects'')"
      by blast
    from f ls have "\<not> firstHasCards scenarioEnv asciiLower ''testing'' ls"
      "\<not> firstHasCards scenarioEnv asciiLower ''in progress'' ls"
      "firstHasCards scenarioEnv asciiLower ''backlog'' ls" by simp_all
    with c have "nextActionSuggestion (workflowState s) = ''Start working on a card from Backlog''"
      by (simp only: if_True if_False)
    with s show ?thesis by blast
  qed
  have other: "\<exists>s. getBoardSummary (boardEnv otherLists reviewCards) asciiLower ?p = Inr s \<and>
        nextActionSuggestion (workflowState s) = ''All tasks complete! Create new cards or projects''"
  proof -
    let ?env = "boardEnv otherLists reviewCards"
    have "\<not> isl (getBoardSummary ?env asciiLower ?p)" by code_simp
    then obtain s where s: "getBoardSummary ?env asciiLower ?p = Inr s"
      using summary_exists by blast
    have g: "getLists ?env (gbs_boardId ?p) = Inr otherLists" by code_simp
    have n: "\<forall>l \<in> set otherLists. \<not> named asciiLower ''testing'' l \<and>
        \<not> named asciiLower ''in progress'' l \<and> \<not> named asciiLower ''backlog'' l"
      by code_simp
    from summary_suggestion[OF s] obtain ls where
      ls: "getLists ?env (gbs_boardId ?p) = Inr ls"
      and c: "(\<forall>l \<in> set ls. \<not> named asciiLower ''testing'' l \<and> \<not> named asciiLower ''in progress'' l \<and>
                      \<not> named asciiLower ''backlog'' l) \<longrightarrow>
        nextActionSuggestion (workflowState s) =
          ''All tasks complete! Create new cards or projects''"
      by blast
    from ls g have eq: "ls = otherLists" by simp
    from c n have "nextActionSuggestion (workflowState s) =
          ''All tasks complete! Create new cards or projects''"
      unfolding eq by blast
    with s show ?thesis by blast
  qed
  from review tie backlog other show ?thesis by (intro conjI)
qed

theorem summary_suggestion_counterexample:
  "getLists (boardEnv twinLists twinCards) ''b1'' = Inr twinLists \<and>
   map (\<lambda>l. (map_option asciiLower (list_name l),
              length (cardsOfList (boardEnv twinLists twinCards) l))) twinLists =
     [(Some ''testing'', 0), (Some ''testing'', 1), (Some ''in progress'', 1)] \<and>
   someHasCards (boardEnv twinLists twinCards) asciiLower ''testing'' twinLists \<and>
   (case getBoardSummary (boardEnv twinLists twinCards) asciiLower (scenarioParams False False) of
      Inl e \<Rightarrow> False
    | Inr s \<Rightarrow>
        testingCount (stats s) = 0 \<and> \<not> hasCardsInTesting (workflowState s) \<and>
        nextActionSuggestion (workflowState s) = ''Continue working on cards in In Progress'')"
  by code_simp

theorem summary_failure_policy_witness:
  "scenarioBoardOf (gbs_boardId (scenarioParams True True)) = Inr (Some \<lparr>board_id = ''b1''\<rparr>) \<and>
   getBoard failingLabelsEnv = scenarioBoardOf \<and>
   nestedFailure failingLabelsEnv (scenarioParams True True) \<and>
   isl (getBoardSummary failingLabelsEnv asciiLower (scenarioParams True True)) \<and>
   includeComments (scenarioParams True True) \<and>
   (\<exists>l \<in> set (lists_getLists scenarioFetch (gbs_boardId (scenarioParams True True))).
      \<exists>c \<in> set (cards_getCards scenarioFetch (list_id l)). isl (failingComments (card_id c))) \<and>
   isl (getBoardSummary (repoWith scenarioFetch (\<lambda>p. Inr []) scenarioBoardOf failingComments)
          asciiLower (scenarioParams True True)) \<and>
   (\<exists>s. getBoardSummary (repoWith scenarioFetch (\<lambda>p. Inr []) scenarioBoardOf failingComments)
          asciiLower (scenarioParams True False) = Inr s \<and>
        bs_lists s \<noteq> [] \<and>
        (\<forall>l \<in> set (bs_lists s). \<forall>c \<in> set (lwc_cards l).
           \<exists>t. cwd_tasks c = Some t \<and> ts_items t = []))"
proof -
  let ?repo = "repoWith scenarioFetch (\<lambda>p. Inr []) scenarioBoardOf failingComments"
  have h: "scenarioBoardOf (gbs_boardId (scenarioParams it ic)) = Inr (Some \<lparr>board_id = ''b1''\<rparr>)" for it ic
    by (simp add: scenarioBoardOf_def scenarioParams_def)
  have gb: "getBoard failingLabelsEnv = scenarioBoardOf"
    by (simp add: failingLabelsEnv_def scenarioEnv_def repoAccessors_def)
  have nf: "nestedFailure failingLabelsEnv (scenarioParams True True)"
    by (simp add: nestedFailure_def failingLabelsEnv_def)
  have ic: "includeComments (scenarioParams True True)" "\<not> includeComments (scenarioParams True False)"
    "includeTaskDetails (scenarioParams True False)"
    by (simp_all add: scenarioParams_def)
  have ex: "\<exists>l \<in> set (lists_getLists scenarioFetch (gbs_boardId (scenarioParams True True))).
      \<exists>c \<in> set (cards_getCards scenarioFetch (list_id l)). isl (failingComments (card_id c))"
    by code_simp
  have fails: "isl (scenarioFetch (getReq (''/api/cards/'' @ cId)))" for cId
    by (simp add: scenarioFetch_def getReq_def)
  note pol1 = summary_failure_policy[where boardOf = scenarioBoardOf
      and params = "scenarioParams True True" and board = "\<lparr>board_id = ''b1''\<rparr>"
      and env = failingLabelsEnv and lower = asciiLower and fetch = scenarioFetch
      and boardsOf = "\<lambda>p. Inr []" and commentsFor = failingComments, OF h]
  note pol2 = summary_failure_policy[where boardOf = scenarioBoardOf
      and params = "scenarioParams True False" and board = "\<lparr>board_id = ''b1''\<rparr>"
      and env = failingLabelsEnv and lower = asciiLower and fetch = scenarioFetch
      and boardsOf = "\<lambda>p. Inr []" and commentsFor = failingComments, OF h]
  from pol1 gb nf have a: "isl (getBoardSummary failingLabelsEnv asciiLower (scenarioParams True True))"
    by blast
  from pol1 ic(1) ex have b: "isl (getBoardSummary ?repo asciiLower (scenarioParams True True))"
    by blast
  from pol2 ic(2) have "\<not> isl (getBoardSummary ?repo asciiLower (scenarioParams True False))"
    by blast
  then obtain s where s: "getBoardSummary ?repo asciiLower (scenarioParams True False) = Inr s"
    using summary_exists by blast
  have ne: "bs_lists s \<noteq> []"
  proof -
    have "case getBoardSummary ?repo asciiLower (scenarioParams True False) of
        Inl e \<Rightarrow> False | Inr s \<Rightarrow> bs_lists s \<noteq> []"
      by code_simp
    with s show ?thesis by simp
  qed
  from pol2 s ic(3) fails
  have "\<forall>l \<in> set (bs_lists s). \<forall>c \<in> set (lwc_cards l). \<exists>t. cwd_tasks c = Some t \<and> ts_items t = []"
    by blast
  with s ne have c: "\<exists>s. getBoardSummary ?repo asciiLower (scenarioParams True False) = Inr s \<and>
        bs_lists s \<noteq> [] \<and>
        (\<forall>l \<in> set (bs_lists s). \<forall>c \<in> set (lwc_cards l).
           \<exists>t. cwd_tasks c = Some t \<and> ts_items t = [])"
    by blast
  from h[of True True] gb nf a ic(1) ex b c show ?thesis by (intro conjI)
qed

theorem summary_failure_policy_counterexample:
  "isl (scenarioFetch (getReq (''/api/cards/'' @ ''c1''))) \<and>
   includeTaskDetails (scenarioParams True False) \<and>
   (case getBoardSummary scenarioEnv asciiLower (scenarioParams True False) of
      Inl e \<Rightarrow> False
    | Inr s \<Rightarrow>
        map (\<lambda>l. map (\<lambda>c. (card_id (cwd_card c), map_option ts_items (cwd_tasks c))) (lwc_cards l))
          (bs_lists s) =
          [[(''c1'', Some []), (''c2'', Some [])], [(''c3'', Some [])]])"
  by code_simp

subsection \<open>The percentage expression\<close>

text \<open>
  \<open>binade\<close> is the binary exponent, \<open>toDouble\<close> is off by at most half a unit in the last
  place, and the rounded percentage expression is within \<open>2\<^sup>-\<^sup>4\<^sup>5\<close> of the exact percentage.
\<close>

lemma pow2_powi: "pow2 e = 2 powi e"
  by (simp add: pow2_def power_int_def field_simps)

lemma pow2_pos: "0 < pow2 e"
  by (simp add: pow2_powi)

lemma pow2_Suc: "pow2 (e + 1) = 2 * pow2 e"
  by (simp add: pow2_powi power_int_add)

lemma binade_bounds:
  assumes "0 < x"
  shows "pow2 (binade x) \<le> x \<and> x < pow2 (binade x + 1)"
proof -
  obtain p q where pq: "quotient_of x = (p, q)" by (cases "quotient_of x")
  then have q: "0 < q" by (rule quotient_of_denom_pos)
  from pq have x: "x = of_int p / of_int q" by (rule quotient_of_div)
  from assms x q have p: "0 < p" by (simp add: zero_less_divide_iff)
  let ?e = "bitlen p - bitlen q"
  from bitlen_bounds[OF p] have bp: "2 ^ nat (bitlen p - 1) \<le> p" "p < 2 ^ nat (bitlen p)" by auto
  from bitlen_bounds[OF q] have bq: "2 ^ nat (bitlen q - 1) \<le> q" "q < 2 ^ nat (bitlen q)" by auto
  have bp1: "1 \<le> bitlen p" and bq1: "1 \<le> bitlen q"
    using p q bitlen_eq_zero_iff[of p] bitlen_eq_zero_iff[of q] bitlen_nonneg[of p] bitlen_nonneg[of q]
    by linarith+
  have P1: "(2::rat) powi (bitlen p - 1) \<le> of_int p"
  proof -
    have "(2::rat) powi (bitlen p - 1) = of_int (2 ^ nat (bitlen p - 1))"
      using bp1 by (simp add: power_int_def)
    also have "\<dots> \<le> of_int p" using bp(1) by (simp only: of_int_le_iff)
    finally show ?thesis .
  qed
  have P2: "of_int p < (2::rat) powi (bitlen p)"
  proof -
    have "of_int p < (of_int (2 ^ nat (bitlen p)) :: rat)" using bp(2) by (simp only: of_int_less_iff)
    also have "\<dots> = 2 powi (bitlen p)" using bp1 by (simp add: power_int_def)
    finally show ?thesis .
  qed
  have Q1: "(2::rat) powi (bitlen q - 1) \<le> of_int q"
  proof -
    have "(2::rat) powi (bitlen q - 1) = of_int (2 ^ nat (bitlen q - 1))"
      using bq1 by (simp add: power_int_def)
    also have "\<dots> \<le> of_int q" using bq(1) by (simp only: of_int_le_iff)
    finally show ?thesis .
  qed
  have Q2: "of_int q < (2::rat) powi (bitlen q)"
  proof -
    have "of_int q < (of_int (2 ^ nat (bitlen q)) :: rat)" using bq(2) by (simp only: of_int_less_iff)
    also have "\<dots> = 2 powi (bitlen q)" using bq1 by (simp add: power_int_def)
    finally show ?thesis .
  qed
  have qpos: "(0::rat) < of_int q" using q by simp
  have lo: "pow2 (?e - 1) \<le> x"
  proof -
    have "pow2 (?e - 1) * of_int q \<le> pow2 (?e - 1) * 2 powi (bitlen q)"
      using Q2 pow2_pos[of "?e - 1"] by (intro mult_left_mono) auto
    also have "\<dots> = 2 powi (bitlen p - 1)"
      by (simp add: pow2_powi power_int_add[symmetric])
    also have "\<dots> \<le> of_int p" by (rule P1)
    finally show ?thesis using qpos by (simp add: x pos_le_divide_eq)
  qed
  have hi: "x < pow2 (?e + 1)"
  proof -
    have "of_int p < (2::rat) powi (bitlen p)" by (rule P2)
    also have "\<dots> = pow2 (?e + 1) * 2 powi (bitlen q - 1)"
      by (simp add: pow2_powi power_int_add[symmetric])
    also have "\<dots> \<le> pow2 (?e + 1) * of_int q"
      using Q1 pow2_pos[of "?e + 1"] by (intro mult_left_mono) auto
    finally show ?thesis using qpos by (simp add: x pos_divide_less_eq)
  qed
  show ?thesis
  proof (cases "pow2 ?e \<le> x")
    case True
    then have "binade x = ?e" by (simp add: binade_def pq)
    with True hi show ?thesis by simp
  next
    case False
    then have "binade x = ?e - 1" by (simp add: binade_def pq)
    with False lo show ?thesis by simp
  qed
qed

lemma pow2_mono: "a \<le> b \<Longrightarrow> pow2 a \<le> pow2 b"
  by (simp add: pow2_powi power_int_increasing)

lemma pow2_less_imp: "pow2 a < pow2 b \<Longrightarrow> a < b"
  using pow2_mono[of b a] by (cases "a < b") auto

lemma binade_less:
  assumes "0 < x" "x < pow2 k"
  shows "binade x < k"
proof -
  from binade_bounds[OF assms(1)] assms(2) have "pow2 (binade x) < pow2 k" by simp
  then show ?thesis by (rule pow2_less_imp)
qed

lemma roundToEven_near: "\<bar>of_int (roundToEven y) - y\<bar> \<le> 1 / 2"
proof -
  have "of_int \<lfloor>y\<rfloor> \<le> y" "y < of_int \<lfloor>y\<rfloor> + 1" by linarith+
  then show ?thesis
    by (auto simp: roundToEven_def Let_def abs_le_iff)
qed

lemma toDouble_error:
  assumes "0 < x"
  shows "\<bar>toDouble x - x\<bar> \<le> pow2 (binade x - 53)"
proof -
  let ?q = "pow2 (binade x - 52)"
  have q: "0 < ?q" by (rule pow2_pos)
  have half: "?q / 2 = pow2 (binade x - 53)"
    using pow2_Suc[of "binade x - 53"] by simp
  have "toDouble x - x = (of_int (roundToEven (x / ?q)) - x / ?q) * ?q"
    using assms q by (simp add: toDouble_def Let_def field_simps)
  then have "\<bar>toDouble x - x\<bar> = \<bar>of_int (roundToEven (x / ?q)) - x / ?q\<bar> * ?q"
    using q by (simp add: abs_mult)
  also have "\<dots> \<le> (1 / 2) * ?q"
    using roundToEven_near[of "x / ?q"] q by (intro mult_right_mono) auto
  finally show ?thesis using half by simp
qed

lemma pow2_numeral:
  "pow2 (- 53) = 1 / 2 ^ 53" "pow2 (- 47) = 1 / 2 ^ 47" "pow2 7 = 128" "pow2 0 = 1" "pow2 1 = 2"
  by (simp_all add: pow2_def)

lemma scaled_triangle:
  fixes A r x :: rat
  shows "\<bar>A - 100 * x\<bar> \<le> \<bar>A - r * 100\<bar> + 100 * \<bar>r - x\<bar>"
proof -
  have "\<bar>A - 100 * x\<bar> = \<bar>(A - r * 100) + 100 * (r - x)\<bar>" by (simp add: algebra_simps)
  also have "\<dots> \<le> \<bar>A - r * 100\<bar> + \<bar>100 * (r - x)\<bar>" by (rule abs_triangle_ineq)
  also have "\<bar>100 * (r - x)\<bar> = 100 * \<bar>r - x\<bar>" by (simp only: abs_mult abs_numeral)
  finally show ?thesis .
qed

lemma percent_error:
  assumes "0 < a" "a \<le> b"
  shows "\<bar>toDouble (toDouble (of_nat a / of_nat b) * 100) - 100 * of_nat a / of_nat b\<bar> < 1 / 2 ^ 45"
proof -
  let ?x = "(of_nat a / of_nat b) :: rat"
  let ?r1 = "toDouble ?x"
  from assms have b: "0 < b" by simp
  from assms b have x0: "0 < ?x" by simp
  from assms b have x1: "?x \<le> 1" by simp
  have "?x < pow2 1" using x1 by (simp add: pow2_numeral)
  from binade_less[OF x0 this] have e1: "binade ?x \<le> 0" by simp
  have err1: "\<bar>?r1 - ?x\<bar> \<le> 1 / 2 ^ 53"
  proof -
    have "\<bar>?r1 - ?x\<bar> \<le> pow2 (binade ?x - 53)" by (rule toDouble_error[OF x0])
    also have "\<dots> \<le> pow2 (- 53)" using e1 by (intro pow2_mono) simp
    finally show ?thesis by (simp add: pow2_numeral)
  qed
  have lowx: "pow2 (binade ?x) \<le> ?x" using binade_bounds[OF x0] by simp
  have r1pos: "0 < ?r1"
  proof -
    have "pow2 (binade ?x - 53) < pow2 (binade ?x)"
      using pow2_pos[of "binade ?x - 53"] pow2_Suc[of "binade ?x - 53"]
        pow2_mono[of "binade ?x - 52" "binade ?x"] by simp
    with toDouble_error[OF x0] lowx show ?thesis by (simp add: abs_le_iff)
  qed
  have r1le: "?r1 \<le> 1 + 1 / 2 ^ 53" using err1 x1 by linarith
  let ?y = "?r1 * 100"
  have y0: "0 < ?y" using r1pos by simp
  have "(1::rat) / 2 ^ 53 < 1 / 4" by simp
  with r1le have "?y < 128" by linarith
  then have "?y < pow2 7" by (simp only: pow2_numeral)
  from binade_less[OF y0 this] have e2: "binade ?y \<le> 6" by simp
  have err2: "\<bar>toDouble ?y - ?y\<bar> \<le> 1 / 2 ^ 47"
  proof -
    have "\<bar>toDouble ?y - ?y\<bar> \<le> pow2 (binade ?y - 53)" by (rule toDouble_error[OF y0])
    also have "\<dots> \<le> pow2 (- 47)" using e2 by (intro pow2_mono) simp
    finally show ?thesis by (simp add: pow2_numeral)
  qed
  have c: "100 * of_nat a / of_nat b = 100 * ?x" by simp
  have "\<bar>toDouble ?y - 100 * ?x\<bar> \<le> \<bar>toDouble ?y - ?y\<bar> + 100 * \<bar>?r1 - ?x\<bar>"
    by (rule scaled_triangle)
  also have "\<dots> \<le> 1 / 2 ^ 47 + 100 * (1 / 2 ^ 53)"
    using err1 err2 by (intro add_mono mult_left_mono) auto
  also have "\<dots> < 1 / 2 ^ 45" by simp
  finally show ?thesis unfolding c .
qed

lemma mathRound_exact:
  assumes "0 < b"
  shows "mathRound (100 * of_nat a / of_nat b) = int ((200 * a + b) div (2 * b))"
proof -
  have "(100 * of_nat a / of_nat b + 1 / 2 :: rat) = of_nat (200 * a + b) / of_nat (2 * b)"
    using assms by (simp add: field_simps)
  then have "mathRound (100 * of_nat a / of_nat b) = \<lfloor>(of_nat (200 * a + b) / of_nat (2 * b) :: rat)\<rfloor>"
    by (simp only: mathRound_def)
  also have "\<dots> = int ((200 * a + b) div (2 * b))"
    by (simp only: floor_divide_of_nat_eq)
  finally show ?thesis .
qed

lemma mathRound_0: "mathRound 0 = 0"
proof -
  have "\<lfloor>(1 / 2 :: rat)\<rfloor> = 0" by (rule floor_unique) simp_all
  then show ?thesis by (simp add: mathRound_def)
qed

lemma percentOf_rounds:
  assumes "0 < b" "a \<le> b" "b < 2 ^ 44"
  shows "percentOf a b = mathRound (100 * of_nat a / of_nat b) \<or>
         exactHalf a b \<and> percentOf a b = mathRound (100 * of_nat a / of_nat b) - 1"
proof (cases "a = 0")
  case True
  have "toDouble 0 = 0" by (simp add: toDouble_def)
  then have "percentOf 0 b = 0" using assms(1) by (simp add: percentOf_def mathRound_0)
  moreover have "mathRound (100 * of_nat 0 / of_nat b) = 0" by (simp add: mathRound_0)
  ultimately show ?thesis using True by simp
next
  case False
  then have a: "0 < a" by simp
  let ?r = "toDouble (toDouble (of_nat a / of_nat b) * 100)"
  let ?y = "(100 * of_nat a / of_nat b) :: rat"
  let ?M = "200 * a + b" and ?D = "2 * b"
  let ?N = "?M div ?D" and ?m = "?M mod ?D"
  have D: "0 < ?D" using assms(1) by simp
  have Dr: "(0::rat) < of_nat ?D" using D by (simp only: of_nat_0_less_iff)
  define d :: rat where "d = 1 / 2 ^ 45"
  have err: "\<bar>?r - ?y\<bar> < d" unfolding d_def by (rule percent_error[OF a assms(2)])
  then have e1: "?y - d < ?r" and e2: "?r < ?y + d" by linarith+
  have tiny: "d < 1" unfolding d_def by simp
  have p: "percentOf a b = \<lfloor>?r + 1 / 2\<rfloor>"
    using assms(1) by (simp add: percentOf_def mathRound_def)
  have t: "?y + 1 / 2 = of_nat ?M / of_nat ?D"
    using assms(1) by (simp add: field_simps)
  have "of_nat ?M = (of_nat (?D * ?N + ?m) :: rat)" by (simp only: mult_div_mod_eq)
  then have "of_nat ?M / of_nat ?D = (of_nat ?N :: rat) + of_nat ?m / of_nat ?D"
    using Dr by (simp add: field_simps)
  with t have split: "?y + 1 / 2 = of_nat ?N + of_nat ?m / of_nat ?D" by simp
  have ex: "mathRound ?y = int ?N" by (rule mathRound_exact[OF assms(1)])
  have small: "d < 1 / of_nat ?D"
  proof -
    have "?D < 2 ^ 45" using assms(3) by simp
    then have "(of_nat ?D :: rat) < of_nat (2 ^ 45)" by (simp only: of_nat_less_iff)
    then have "(of_nat ?D :: rat) < 2 ^ 45" by simp
    with Dr show ?thesis unfolding d_def by (simp add: frac_less2)
  qed
  show ?thesis
  proof (cases "?m = 0")
    case True
    then have half: "exactHalf a b" by (simp add: exactHalf_def)
    from True split have s0: "?y + 1 / 2 = of_nat ?N" by simp
    have lo: "of_nat ?N - d < ?r + 1 / 2" using e1 s0 by linarith
    have hi: "?r + 1 / 2 < of_nat ?N + d" using e2 s0 by linarith
    have "\<lfloor>?r + 1 / 2\<rfloor> = int ?N \<or> \<lfloor>?r + 1 / 2\<rfloor> = int ?N - 1"
    proof (cases "of_nat ?N \<le> ?r + 1 / 2")
      case True
      have "?r + 1 / 2 < of_int (int ?N) + 1" using hi tiny by simp
      moreover have "of_int (int ?N) \<le> ?r + 1 / 2" using True by simp
      ultimately have "\<lfloor>?r + 1 / 2\<rfloor> = int ?N" by (intro floor_unique)
      then show ?thesis ..
    next
      case False
      have "of_int (int ?N - 1) \<le> ?r + 1 / 2" using lo tiny by simp
      moreover have "?r + 1 / 2 < of_int (int ?N - 1) + 1" using False by simp
      ultimately have "\<lfloor>?r + 1 / 2\<rfloor> = int ?N - 1" by (intro floor_unique)
      then show ?thesis ..
    qed
    with p ex half show ?thesis by auto
  next
    case False
    then have m1: "1 \<le> ?m" by simp
    have m2: "?m + 1 \<le> ?D" using D by (simp add: Suc_leI)
    have f1: "1 / of_nat ?D \<le> (of_nat ?m / of_nat ?D :: rat)"
    proof -
      have "(of_nat 1 :: rat) \<le> of_nat ?m" using m1 by (simp only: of_nat_le_iff)
      then have "(1::rat) \<le> of_nat ?m" by simp
      then show ?thesis using Dr by (simp add: divide_right_mono)
    qed
    have f2: "(of_nat ?m / of_nat ?D :: rat) \<le> 1 - 1 / of_nat ?D"
    proof -
      have "(of_nat (?m + 1) :: rat) \<le> of_nat ?D" using m2 by (simp only: of_nat_le_iff)
      then have "(of_nat ?m :: rat) + 1 \<le> of_nat ?D" by simp
      then have "(of_nat ?m + 1) / of_nat ?D \<le> (1::rat)" using Dr by (simp add: pos_divide_le_eq)
      then show ?thesis by (simp add: add_divide_distrib)
    qed
    have lo: "of_nat ?N < ?r + 1 / 2" using e1 split f1 small by linarith
    have hi: "?r + 1 / 2 < of_nat ?N + 1" using e2 split f2 small by linarith
    have "of_int (int ?N) \<le> ?r + 1 / 2" using lo by simp
    moreover have "?r + 1 / 2 < of_int (int ?N) + 1" using hi by simp
    ultimately have "\<lfloor>?r + 1 / 2\<rfloor> = int ?N" by (intro floor_unique)
    with p ex show ?thesis by simp
  qed
qed

lemma percentOf_examples:
  "percentOf 1 3 = 33" "percentOf 1 8 = 13" "percentOf 23 40 = 57" "percentOf 29 200 = 14"
  by code_simp+

lemma foldl_cardCount_mono:
  "n \<le> foldl (\<lambda>sum l. sum + cardCount l) n ys"
proof (induction ys arbitrary: n)
  case Nil
  then show ?case by simp
next
  case (Cons y ys)
  have "n \<le> n + cardCount y" by simp
  also have "\<dots> \<le> foldl (\<lambda>sum l. sum + cardCount l) (n + cardCount y) ys" by (rule Cons.IH)
  finally show ?case by simp
qed

lemma foldl_cardCount_ge:
  "l \<in> set ls \<Longrightarrow> cardCount l \<le> foldl (\<lambda>sum l. sum + cardCount l) n ls"
proof (induction ls arbitrary: n)
  case Nil
  then show ?case by simp
next
  case (Cons x xs)
  show ?case
  proof (cases "l = x")
    case True
    have "cardCount x \<le> n + cardCount x" by simp
    also have "\<dots> \<le> foldl (\<lambda>sum l. sum + cardCount l) (n + cardCount x) xs"
      by (rule foldl_cardCount_mono)
    finally show ?thesis using True by simp
  next
    case False
    with Cons.prems have "l \<in> set xs" by simp
    from Cons.IH[OF this] show ?thesis by simp
  qed
qed

lemma countOf_le_total:
  "countOf (namedList lower wanted ls) \<le> foldl (\<lambda>sum l. sum + cardCount l) 0 ls"
proof (cases "namedList lower wanted ls")
  case None
  then show ?thesis by (simp add: countOf_def)
next
  case (Some l)
  then have "l \<in> set ls" by (auto simp: namedList_def find_Some_iff)
  with Some show ?thesis by (simp add: countOf_def foldl_cardCount_ge)
qed

lemma summary_done_le_total:
  assumes "getBoardSummary env lower params = Inr s"
  shows "doneCount (stats s) \<le> totalCards (stats s)"
  using assms by (elim getBoardSummary_Inr) (simp add: countOf_le_total)

lemma summary_task_counts:
  assumes "getBoardSummary env lower params = Inr s"
    and "l \<in> set (bs_lists s)" and "c \<in> set (lwc_cards l)" and "cwd_tasks c = Some t"
  shows "ts_completed t \<le> ts_total t"
proof -
  note cw = summary_cards[OF assms(1-3)]
  show ?thesis
    using cardWithDetails_Inr(2,3)[OF cw] assms(4)
    by (cases "includeTaskDetails params") auto
qed

text \<open>
  Claim C5. The percentage of the board is 0 for no cards; otherwise (below \<open>2\<^sup>4\<^sup>4\<close> cards)
  it is \<open>round(100 * doneCount / totalCards)\<close>, unless that value lies exactly halfway
  between two integers, where it may be the integer below. The same holds of the task
  percentage of every card. On a board with 23 of 40 cards done the exact value is
  \<open>57.5\<close>, which rounds to 58, and the summary reports 57.
\<close>

theorem completion_percentage:
  assumes "getBoardSummary env lower params = Inr s"
  shows "(totalCards (stats s) = 0 \<longrightarrow> completionPercentage (stats s) = 0) \<and>
         (0 < totalCards (stats s) \<and> totalCards (stats s) < 2 ^ 44 \<longrightarrow>
            completionPercentage (stats s) =
              mathRound (100 * of_nat (doneCount (stats s)) / of_nat (totalCards (stats s))) \<or>
            exactHalf (doneCount (stats s)) (totalCards (stats s)) \<and>
            completionPercentage (stats s) =
              mathRound (100 * of_nat (doneCount (stats s)) / of_nat (totalCards (stats s))) - 1) \<and>
         (\<forall>l \<in> set (bs_lists s). \<forall>c \<in> set (lwc_cards l). \<forall>t. cwd_tasks c = Some t \<longrightarrow>
            (ts_total t = 0 \<longrightarrow> ts_completionPercentage t = 0) \<and>
            (0 < ts_total t \<and> ts_total t < 2 ^ 44 \<longrightarrow>
               ts_completionPercentage t =
                 mathRound (100 * of_nat (ts_completed t) / of_nat (ts_total t)) \<or>
               exactHalf (ts_completed t) (ts_total t) \<and>
               ts_completionPercentage t =
                 mathRound (100 * of_nat (ts_completed t) / of_nat (ts_total t)) - 1))"
proof -
  note pc = summary_percentages[OF assms]
  have zero: "percentOf n 0 = 0" for n by (simp add: percentOf_def)
  have board0: "completionPercentage (stats s) = 0" if "totalCards (stats s) = 0"
    using pc(1) that zero by simp
  have board: "completionPercentage (stats s) =
              mathRound (100 * of_nat (doneCount (stats s)) / of_nat (totalCards (stats s))) \<or>
            exactHalf (doneCount (stats s)) (totalCards (stats s)) \<and>
            completionPercentage (stats s) =
              mathRound (100 * of_nat (doneCount (stats s)) / of_nat (totalCards (stats s))) - 1"
    if "0 < totalCards (stats s)" "totalCards (stats s) < 2 ^ 44"
    unfolding pc(1)
    by (rule percentOf_rounds[OF that(1) summary_done_le_total[OF assms] that(2)])
  have cards: "(ts_total t = 0 \<longrightarrow> ts_completionPercentage t = 0) \<and>
            (0 < ts_total t \<and> ts_total t < 2 ^ 44 \<longrightarrow>
               ts_completionPercentage t =
                 mathRound (100 * of_nat (ts_completed t) / of_nat (ts_total t)) \<or>
               exactHalf (ts_completed t) (ts_total t) \<and>
               ts_completionPercentage t =
                 mathRound (100 * of_nat (ts_completed t) / of_nat (ts_total t)) - 1)"
    if m: "l \<in> set (bs_lists s)" "c \<in> set (lwc_cards l)" "cwd_tasks c = Some t" for l c t
  proof -
    note p = pc(2)[OF m]
    note le = summary_task_counts[OF assms m]
    have "ts_completionPercentage t = 0" if "ts_total t = 0"
      using p that zero by simp
    moreover have "ts_completionPercentage t =
                 mathRound (100 * of_nat (ts_completed t) / of_nat (ts_total t)) \<or>
               exactHalf (ts_completed t) (ts_total t) \<and>
               ts_completionPercentage t =
                 mathRound (100 * of_nat (ts_completed t) / of_nat (ts_total t)) - 1"
      if "0 < ts_total t" "ts_total t < 2 ^ 44"
      unfolding p by (rule percentOf_rounds[OF that(1) le that(2)])
    ultimately show ?thesis by blast
  qed
  from board0 board cards show ?thesis by blast
qed

theorem completion_percentage_witness:
  "\<exists>s. getBoardSummary tieEnv asciiLower (scenarioParams False False) = Inr s \<and>
       doneCount (stats s) = 23 \<and> totalCards (stats s) = 40 \<and>
       0 < totalCards (stats s) \<and> totalCards (stats s) < 2 ^ 44 \<and>
       completionPercentage (stats s) = 57 \<and>
       mathRound (100 * of_nat (doneCount (stats s)) / of_nat (totalCards (stats s))) = 58 \<and>
       (completionPercentage (stats s) =
          mathRound (100 * of_nat (doneCount (stats s)) / of_nat (totalCards (stats s))) \<or>
        exactHalf (doneCount (stats s)) (totalCards (stats s)) \<and>
        completionPercentage (stats s) =
          mathRound (100 * of_nat (doneCount (stats s)) / of_nat (totalCards (stats s))) - 1)"
proof -
  have "case getBoardSummary tieEnv asciiLower (scenarioParams False False) of
      Inl e \<Rightarrow> False
    | Inr s \<Rightarrow> doneCount (stats s) = 23 \<and> totalCards (stats s) = 40 \<and>
                 completionPercentage (stats s) = 57"
    by code_simp
  then obtain s where s: "getBoardSummary tieEnv asciiLower (scenarioParams False False) = Inr s"
    and f: "doneCount (stats s) = 23" "totalCards (stats s) = 40"
       "completionPercentage (stats s) = 57"
    by (cases "getBoardSummary tieEnv asciiLower (scenarioParams False False)") auto
  have g: "0 < totalCards (stats s)" "totalCards (stats s) < 2 ^ 44"
    unfolding f by simp_all
  have "mathRound (100 * 23 / 40) = 58" by code_simp
  then have r: "mathRound (100 * of_nat (doneCount (stats s)) / of_nat (totalCards (stats s))) = 58"
    unfolding f by simp
  from completion_percentage[OF s] g
  have "completionPercentage (stats s) =
          mathRound (100 * of_nat (doneCount (stats s)) / of_nat (totalCards (stats s))) \<or>
        exactHalf (doneCount (stats s)) (totalCards (stats s)) \<and>
        completionPercentage (stats s) =
          mathRound (100 * of_nat (doneCount (stats s)) / of_nat (totalCards (stats s))) - 1"
    by blast
  with s f g r show ?thesis by blast
qed

section \<open>Properties of the writes\<close>

lemma plankaRequest_sent:
  "plankaRequest srv rq w = (res, w') \<Longrightarrow> sent w' = sent w @ [(rq, res)]"
  by (auto simp: plankaRequest_def split: prod.splits)

text \<open>
  Claim C8. When the card is fetched and none of its card labels matches both the card
  id and the label id, \<open>removeLabelFromCard\<close> returns success, the fetch is the only
  request it sends, and no \<open>DELETE\<close> is sent.
\<close>

theorem removeLabel_absent:
  assumes "plankaRequest srv (getReq (''/api/cards/'' @ cId)) w = (Inr cardResponse, w1)"
    and "\<forall>cl \<in> set (cardLabelsOf cardResponse). \<not> (cl_cardId cl = cId \<and> cl_labelId cl = labelId)"
  shows "removeLabelFromCard srv cId labelId w =
           (Inr \<lparr>success = True, rr_message = Some ''Label was not on card''\<rparr>, w1) \<and>
         sent w1 = sent w @ [(getReq (''/api/cards/'' @ cId), Inr cardResponse)] \<and>
         DELETE \<notin> set (map (\<lambda>x. req_verb (fst x))
            (drop (length (sent w)) (sent (snd (removeLabelFromCard srv cId labelId w)))))"
proof -
  from assms(2) have "find (\<lambda>cl. cl_cardId cl = cId \<and> cl_labelId cl = labelId)
      (cardLabelsOf cardResponse) = None"
    by (simp add: find_None_iff)
  with assms(1) have r: "removeLabelFromCard srv cId labelId w =
           (Inr \<lparr>success = True, rr_message = Some ''Label was not on card''\<rparr>, w1)"
    by (simp add: removeLabelFromCard_def)
  have s: "sent w1 = sent w @ [(getReq (''/api/cards/'' @ cId), Inr cardResponse)]"
    by (rule plankaRequest_sent[OF assms(1)])
  show ?thesis unfolding r using s by (simp add: getReq_def)
qed

lemma taskPosts_append: "taskPosts (xs @ ys) = taskPosts xs @ taskPosts ys"
  by (induction xs) (auto split: option.splits)

lemma noDelete_append: "noDelete (xs @ ys) \<longleftrightarrow> noDelete xs \<and> noDelete ys"
  by (auto simp: noDelete_def)

lemma noDelete_Nil: "noDelete []"
  by (simp add: noDelete_def)

lemma getOrCreateTaskList_sent:
  assumes "getOrCreateTaskList srv cId w = (r, w')"
  shows "\<exists>new. sent w' = sent w @ new \<and> taskPosts new = [] \<and> noDelete new \<and>
           taskCardIdMap w' = taskCardIdMap w"
proof -
  obtain res1 w1 where p1: "plankaRequest srv (getReq (''/api/cards/'' @ cId)) w = (res1, w1)"
    by (cases "plankaRequest srv (getReq (''/api/cards/'' @ cId)) w")
  then have s1: "sent w1 = sent w @ [(getReq (''/api/cards/'' @ cId), res1)]"
    and m1: "taskCardIdMap w1 = taskCardIdMap w"
    by (auto simp: plankaRequest_def split: prod.splits)
  let ?x1 = "(getReq (''/api/cards/'' @ cId), res1)"
  have x1: "taskPosts [?x1] = []" "noDelete [?x1]"
    by (cases res1; simp add: getReq_def noDelete_def)+
  let ?rq2 = "\<lparr>req_path = ''/api/cards/'' @ cId @ ''/task-lists'', req_verb = POST,
                         req_body = TaskListBody ''Tasks'' 65535 True\<rparr>"
  obtain res2 w2 where p2: "plankaRequest srv ?rq2 w1 = (res2, w2)"
    by (cases "plankaRequest srv ?rq2 w1")
  then have s2: "sent w2 = sent w1 @ [(?rq2, res2)]" and m2: "taskCardIdMap w2 = taskCardIdMap w1"
    by (auto simp: plankaRequest_def split: prod.splits)
  have x2: "taskPosts [(?rq2, res2)] = []" "noDelete [(?rq2, res2)]"
    by (cases res2; simp add: noDelete_def)+
  from assms p1 p2 have "w' = w1 \<or> w' = w2"
    by (auto simp: getOrCreateTaskList_def split: sum.splits list.splits option.splits if_splits)
  then show ?thesis
  proof
    assume "w' = w1"
    with s1 x1 m1 show ?thesis by blast
  next
    assume w2: "w' = w2"
    have a: "sent w' = sent w @ ([?x1] @ [(?rq2, res2)])"
      unfolding w2 s2 s1 by simp
    have b: "taskPosts ([?x1] @ [(?rq2, res2)]) = []"
      by (simp only: taskPosts_append x1 x2 append_Nil)
    have c: "noDelete ([?x1] @ [(?rq2, res2)])"
      by (simp only: noDelete_append x1 x2)
    have d: "taskCardIdMap w' = taskCardIdMap w"
      unfolding w2 m2 m1 ..
    from a b c d show ?thesis by blast
  qed
qed

lemma createTask_sent:
  assumes "createTask srv cId name (Some p) w = (r, w')"
  shows "\<exists>new. sent w' = sent w @ new \<and> noDelete new \<and>
           (case r of Inr t \<Rightarrow> taskPosts new = [(name, p)]
                    | Inl e \<Rightarrow> taskPosts new = [] \<or> taskPosts new = [(name, p)])"
proof -
  obtain r1 w1 where g: "getOrCreateTaskList srv cId w = (r1, w1)"
    by (cases "getOrCreateTaskList srv cId w")
  from getOrCreateTaskList_sent[OF g] obtain new1 where
    n1: "sent w1 = sent w @ new1" "taskPosts new1 = []" "noDelete new1"
    by blast
  show ?thesis
  proof (cases r1)
    case (Inl e)
    with assms g have "w' = w1" "isl r" by (auto simp: createTask_def)
    with n1 show ?thesis by (intro exI[of _ new1]) (auto split: sum.splits)
  next
    case (Inr tlId)
    let ?rq = "\<lparr>req_path = ''/api/task-lists/'' @ tlId @ ''/tasks'', req_verb = POST,
                    req_body = TaskBody name p\<rparr>"
    obtain res2 w2 where p2: "plankaRequest srv ?rq w1 = (res2, w2)"
      by (cases "plankaRequest srv ?rq w1")
    then have s2: "sent w2 = sent w1 @ [(?rq, res2)]"
      by (rule plankaRequest_sent)
    have nd: "noDelete (new1 @ [(?rq, res2)])"
      using n1(3) by (simp add: noDelete_def)
    from assms g Inr p2 have sw: "sent w' = sent w2"
      by (auto simp: createTask_def split: sum.splits option.splits if_splits)
    have tp: "taskPosts (new1 @ [(?rq, res2)]) = (if isl res2 then [] else [(name, p)])"
      using n1(2) by (cases res2) (simp_all add: taskPosts_append)
    from assms g Inr p2 have "isl res2 \<longrightarrow> isl r"
      by (auto simp: createTask_def split: sum.splits option.splits if_splits)
    with tp sw s2 n1(1) nd show ?thesis
      by (intro exI[of _ "new1 @ [(?rq, res2)]"]) (auto split: sum.splits)
  qed
qed

lemma expectedTasks_step:
  "i < k \<Longrightarrow> expectedTasks tasks i k = (tasks ! i, 65535 * (int i + 1)) # expectedTasks tasks (Suc i) k"
  by (simp add: expectedTasks_def upt_conv_Cons)

lemma createTasksFrom_sent:
  assumes "createTasksFrom srv cId tasks i acc w = (r, w')"
  shows "\<exists>new. sent w' = sent w @ new \<and> noDelete new \<and>
           (case r of
              Inr ts \<Rightarrow> length ts = length acc + (length tasks - i) \<and>
                        taskPosts new = expectedTasks tasks i (length tasks)
            | Inl e \<Rightarrow> (\<exists>k. i \<le> k \<and> k \<le> length tasks \<and> taskPosts new = expectedTasks tasks i k))"
  using assms
proof (induction srv cId tasks i acc w rule: createTasksFrom.induct)
  case (1 srv cId tasks i acc w)
  show ?case
  proof (cases "i < length tasks")
    case False
    with "1.prems" have "r = Inr acc" "w' = w"
      by (simp_all add: createTasksFrom.simps[of srv cId tasks i acc w])
    with False show ?thesis
      by (intro exI[of _ "[]"]) (simp add: noDelete_Nil expectedTasks_def)
  next
    case True
    obtain r1 w1 where c: "createTask srv cId (tasks ! i) (Some (65535 * (int i + 1))) w = (r1, w1)"
      by (cases "createTask srv cId (tasks ! i) (Some (65535 * (int i + 1))) w")
    from createTask_sent[OF c] obtain new1 where
      n1: "sent w1 = sent w @ new1" "noDelete new1"
        "case r1 of Inr t \<Rightarrow> taskPosts new1 = [(tasks ! i, 65535 * (int i + 1))]
                  | Inl e \<Rightarrow> taskPosts new1 = [] \<or> taskPosts new1 = [(tasks ! i, 65535 * (int i + 1))]"
      by blast
    show ?thesis
    proof (cases r1)
      case (Inl e)
      with "1.prems" True c have rw: "r = Inl e" "w' = w1"
        by (simp_all add: createTasksFrom.simps[of srv cId tasks i acc w])
      from n1(3) Inl have "taskPosts new1 = expectedTasks tasks i i \<or>
          taskPosts new1 = expectedTasks tasks i (Suc i)"
        by (auto simp: expectedTasks_def)
      then have "\<exists>k. i \<le> k \<and> k \<le> length tasks \<and> taskPosts new1 = expectedTasks tasks i k"
        using True by (metis Suc_leI le_refl less_imp_le_nat le_Suc_eq)
      with rw n1 show ?thesis by (intro exI[of _ new1]) simp
    next
      case (Inr t)
      with "1.prems" True c
      have rest: "createTasksFrom srv cId tasks (i + 1) (acc @ [t]) w1 = (r, w')"
        by (simp add: createTasksFrom.simps[of srv cId tasks i acc w])
      from "1.IH"[OF True c[symmetric] _ rest] Inr obtain new2 where
        n2: "sent w' = sent w1 @ new2" "noDelete new2"
          "case r of
              Inr ts \<Rightarrow> length ts = length (acc @ [t]) + (length tasks - (i + 1)) \<and>
                        taskPosts new2 = expectedTasks tasks (i + 1) (length tasks)
            | Inl e \<Rightarrow> (\<exists>k. i + 1 \<le> k \<and> k \<le> length tasks \<and>
                          taskPosts new2 = expectedTasks tasks (i + 1) k)"
        by auto
      from n1(3) Inr have tp1: "taskPosts new1 = [(tasks ! i, 65535 * (int i + 1))]" by simp
      show ?thesis
      proof (cases r)
        case rl: (Inl e)
        with n2(3) obtain k where k: "i + 1 \<le> k" "k \<le> length tasks"
          "taskPosts new2 = expectedTasks tasks (i + 1) k" by auto
        then have "taskPosts (new1 @ new2) = expectedTasks tasks i k"
          using tp1 by (simp add: taskPosts_append expectedTasks_step[of i k])
        with k n1 n2 rl show ?thesis
          by (intro exI[of _ "new1 @ new2"]) (auto simp: noDelete_append intro!: exI[of _ k])
      next
        case rr: (Inr ts)
        with n2(3) have l: "length ts = length (acc @ [t]) + (length tasks - (i + 1))"
          and tp2: "taskPosts new2 = expectedTasks tasks (i + 1) (length tasks)" by auto
        have "taskPosts (new1 @ new2) = expectedTasks tasks i (length tasks)"
          using tp1 tp2 True by (simp add: taskPosts_append expectedTasks_step[of i "length tasks"])
        with l True n1 n2 rr show ?thesis
          by (intro exI[of _ "new1 @ new2"]) (auto simp: noDelete_append)
      qed
    qed
  qed
qed

lemma taskPhase_sent:
  assumes "taskPhase srv cId tasks w = (r, w')"
  shows "\<exists>new. sent w' = sent w @ new \<and> noDelete new \<and>
           (case r of
              Inr ts \<Rightarrow> length ts = length (namesOf tasks) \<and>
                        taskPosts new = expectedTasks (namesOf tasks) 0 (length (namesOf tasks))
            | Inl e \<Rightarrow> (\<exists>k. k \<le> length (namesOf tasks) \<and>
                          taskPosts new = expectedTasks (namesOf tasks) 0 k))"
proof (cases "tasks = None \<or> tasks = Some []")
  case True
  with assms have "r = Inr []" "w' = w"
    by (auto simp: taskPhase_def)
  with True show ?thesis
    by (intro exI[of _ "[]"]) (auto simp: noDelete_Nil namesOf_def expectedTasks_def)
next
  case False
  then obtain ts where ts: "tasks = Some ts" "ts \<noteq> []" by (cases tasks) auto
  with assms have "createTasksFrom srv cId ts 0 [] w = (r, w')"
    by (simp add: taskPhase_def)
  from createTasksFrom_sent[OF this] show ?thesis
    by (cases r) (auto simp: namesOf_def ts)
qed

lemma commentPhase_sent:
  assumes "commentPhase srv cId comment w = (r, w')"
  shows "\<exists>new. sent w' = sent w @ new \<and> noDelete new \<and> taskPosts new = []"
proof (cases "truthy comment")
  case False
  with assms have "w' = w" by (simp add: commentPhase_def)
  then show ?thesis by (intro exI[of _ "[]"]) (simp add: noDelete_Nil)
next
  case True
  let ?rq = "\<lparr>req_path = ''/api/cards/'' @ cId @ ''/comments'', req_verb = POST,
               req_body = CommentBody (the comment)\<rparr>"
  obtain res w1 where p: "plankaRequest srv ?rq w = (res, w1)"
    by (cases "plankaRequest srv ?rq w")
  then have s: "sent w1 = sent w @ [(?rq, res)]" by (rule plankaRequest_sent)
  from assms True p have "w' = w1"
    by (auto simp: commentPhase_def createComment_def split: sum.splits)
  moreover have "noDelete [(?rq, res)]" "taskPosts [(?rq, res)] = []"
    by (cases res; simp add: noDelete_def)+
  ultimately show ?thesis using s by blast
qed

lemma createCard_sent:
  assumes "createCard srv options w = (Inr crd, w1)"
  shows "\<exists>answer. sent w1 = sent w @ [(cardRequest options, Inr answer)] \<and>
           parseCardResponse answer = Some crd"
proof -
  obtain res w0 where p: "plankaRequest srv (cardRequest options) w = (res, w0)"
    by (cases "plankaRequest srv (cardRequest options) w")
  then have s: "sent w0 = sent w @ [(cardRequest options, res)]" by (rule plankaRequest_sent)
  from assms p obtain answer where "res = Inr answer" "parseCardResponse answer = Some crd" "w1 = w0"
    by (auto simp: createCard_def split: sum.splits option.splits)
  with s show ?thesis by blast
qed

text \<open>
  Claim C9. When the task phase of \<open>createCardWithTasks\<close> completes, it has created as
  many tasks as there are names, and the tasks created are, in order, the names with
  positions \<open>65535 * (i + 1)\<close>; if the comment phase completes too, these are the tasks of
  the result.
\<close>

theorem task_positions:
  assumes "createCard srv (cardOptions params) w = (Inr crd, w1)"
    and "taskPhase srv (cc_id crd) (cwt_tasks params) w1 = (Inr createdTasks, w2)"
  shows "length createdTasks = length (namesOf (cwt_tasks params)) \<and>
         (\<exists>new. sent w2 = sent w1 @ new \<and>
            taskPosts new =
              map (\<lambda>i. (namesOf (cwt_tasks params) ! i, 65535 * (int i + 1)))
                [0..<length (namesOf (cwt_tasks params))]) \<and>
         (\<forall>c w3. commentPhase srv (cc_id crd) (cwt_comment params) w2 = (Inr c, w3) \<longrightarrow>
            createCardWithTasks srv params w =
              (Inr \<lparr>res_card = crd, res_tasks = createdTasks, res_comment = c\<rparr>, w3))"
proof -
  from taskPhase_sent[OF assms(2)] obtain new where
    "sent w2 = sent w1 @ new" "length createdTasks = length (namesOf (cwt_tasks params))"
    "taskPosts new = expectedTasks (namesOf (cwt_tasks params)) 0 (length (namesOf (cwt_tasks params)))"
    by auto
  moreover have "createCardWithTasks srv params w =
              (Inr \<lparr>res_card = crd, res_tasks = createdTasks, res_comment = c\<rparr>, w3)"
    if "commentPhase srv (cc_id crd) (cwt_comment params) w2 = (Inr c, w3)" for c w3
    using assms that by (simp add: createCardWithTasks_def)
  ultimately show ?thesis unfolding expectedTasks_def by blast
qed

text \<open>
  Claim C4. After a successful card creation, \<open>createCardWithTasks\<close> fails with an error
  exactly when the task phase or the comment phase fails with it, and the world it leaves
  is the one that phase left: the exchange that created the card is recorded, what follows
  are reads and creations only, and the tasks created are the first \<open>k\<close> of the list.
\<close>

theorem no_rollback:
  assumes "createCard srv (cardOptions params) w = (Inr crd, w1)"
  shows "(createCardWithTasks srv params w = (Inl e, w') \<longleftrightarrow>
            taskPhase srv (cc_id crd) (cwt_tasks params) w1 = (Inl e, w') \<or>
            (\<exists>ts w2. taskPhase srv (cc_id crd) (cwt_tasks params) w1 = (Inr ts, w2) \<and>
                commentPhase srv (cc_id crd) (cwt_comment params) w2 = (Inl e, w'))) \<and>
         (createCardWithTasks srv params w = (Inl e, w') \<longrightarrow>
            (\<exists>answer new k.
                sent w1 = sent w @ [(cardRequest (cardOptions params), Inr answer)] \<and>
                parseCardResponse answer = Some crd \<and>
                sent w' = sent w1 @ new \<and> noDelete new \<and>
                k \<le> length (namesOf (cwt_tasks params)) \<and>
                taskPosts new = expectedTasks (namesOf (cwt_tasks params)) 0 k))"
proof -
  let ?tp = "taskPhase srv (cc_id crd) (cwt_tasks params) w1"
  have iff: "createCardWithTasks srv params w = (Inl e, w') \<longleftrightarrow>
            ?tp = (Inl e, w') \<or>
            (\<exists>ts w2. ?tp = (Inr ts, w2) \<and>
                commentPhase srv (cc_id crd) (cwt_comment params) w2 = (Inl e, w'))"
  proof (cases ?tp)
    case (Pair r w2)
    show ?thesis
    proof (cases r)
      case (Inl e2)
      with Pair assms show ?thesis by (auto simp: createCardWithTasks_def)
    next
      case (Inr ts)
      obtain rc w3 where c: "commentPhase srv (cc_id crd) (cwt_comment params) w2 = (rc, w3)"
        by (cases "commentPhase srv (cc_id crd) (cwt_comment params) w2")
      with Pair Inr assms show ?thesis
        by (cases rc) (auto simp: createCardWithTasks_def)
    qed
  qed
  obtain answer where ans: "sent w1 = sent w @ [(cardRequest (cardOptions params), Inr answer)]"
    "parseCardResponse answer = Some crd"
    using createCard_sent[OF assms] by blast
  have log: "\<exists>new k. sent w' = sent w1 @ new \<and> noDelete new \<and>
                k \<le> length (namesOf (cwt_tasks params)) \<and>
                taskPosts new = expectedTasks (namesOf (cwt_tasks params)) 0 k"
    if f: "createCardWithTasks srv params w = (Inl e, w')"
  proof -
    from f iff consider (task) "?tp = (Inl e, w')"
      | (comment) ts w2 where "?tp = (Inr ts, w2)"
          "commentPhase srv (cc_id crd) (cwt_comment params) w2 = (Inl e, w')"
      by blast
    then show ?thesis
    proof cases
      case task
      from taskPhase_sent[OF task] show ?thesis by auto
    next
      case comment
      from taskPhase_sent[OF comment(1)] obtain new1 where
        n1: "sent w2 = sent w1 @ new1" "noDelete new1"
          "taskPosts new1 = expectedTasks (namesOf (cwt_tasks params)) 0 (length (namesOf (cwt_tasks params)))"
        by auto
      from commentPhase_sent[OF comment(2)] obtain new2 where
        n2: "sent w' = sent w2 @ new2" "noDelete new2" "taskPosts new2 = []"
        by blast
      have "sent w' = sent w1 @ (new1 @ new2)" "noDelete (new1 @ new2)"
        "taskPosts (new1 @ new2) = expectedTasks (namesOf (cwt_tasks params)) 0 (length (namesOf (cwt_tasks params)))"
        using n1 n2 by (simp_all add: noDelete_append taskPosts_append)
      then show ?thesis by blast
    qed
  qed
  from iff ans log show ?thesis by blast
qed

lemma demo_cardOptions: "cardOptions (demoCardParams names) = cardOptions (demoCardParams [])"
  by (simp add: cardOptions_def demoCardParams_def)

lemma demo_createCard:
  "createCard demoSrv (cardOptions (demoCardParams names)) world0 = (Inr demoCard9, worldCard)"
proof -
  have "fst (createCard demoSrv (cardOptions (demoCardParams [])) world0) = Inr demoCard9"
    by code_simp
  then show ?thesis
    unfolding demo_cardOptions[of names] worldCard_def by (simp add: prod_eq_iff)
qed

theorem removeLabel_absent_witness:
  "plankaRequest demoSrv (getReq (''/api/cards/'' @ ''c9'')) world0 = (Inr cardResponse9, worldGet) \<and>
   \<not> (\<exists>cl \<in> set (cardLabelsOf cardResponse9). cl_cardId cl = ''c9'' \<and> cl_labelId cl = ''lab2'') \<and>
   removeLabelFromCard demoSrv ''c9'' ''lab2'' world0 =
     (Inr \<lparr>success = True, rr_message = Some ''Label was not on card''\<rparr>, worldGet) \<and>
   sent worldGet = sent world0 @ [(getReq (''/api/cards/'' @ ''c9''), Inr cardResponse9)] \<and>
   DELETE \<notin> set (map (\<lambda>x. req_verb (fst x))
      (drop (length (sent world0)) (sent (snd (removeLabelFromCard demoSrv ''c9'' ''lab2'' world0)))))"
proof -
  have "fst (plankaRequest demoSrv (getReq (''/api/cards/'' @ ''c9'')) world0) = Inr cardResponse9"
    by code_simp
  then have h1: "plankaRequest demoSrv (getReq (''/api/cards/'' @ ''c9'')) world0 =
      (Inr cardResponse9, worldGet)"
    unfolding worldGet_def by (simp add: prod_eq_iff)
  have h2: "\<forall>cl \<in> set (cardLabelsOf cardResponse9). \<not> (cl_cardId cl = ''c9'' \<and> cl_labelId cl = ''lab2'')"
    by code_simp
  from removeLabel_absent[OF h1 h2] h1 h2 show ?thesis by blast
qed

theorem task_positions_witness:
  "createCard demoSrv (cardOptions (demoCardParams [''a'', ''b''])) world0 = (Inr demoCard9, worldCard) \<and>
   taskPhase demoSrv (cc_id demoCard9) (cwt_tasks (demoCardParams [''a'', ''b''])) worldCard =
     (Inr [Some \<lparr>item_id = Some ''t1'', item_isCard = False\<rparr>,
           Some \<lparr>item_id = Some ''t2'', item_isCard = False\<rparr>], worldTasks [''a'', ''b'']) \<and>
   map (\<lambda>i. (namesOf (cwt_tasks (demoCardParams [''a'', ''b''])) ! i, 65535 * (int i + 1)))
     [0..<length (namesOf (cwt_tasks (demoCardParams [''a'', ''b''])))] =
     [(''a'', 65535), (''b'', 131070)] \<and>
   (\<exists>new. sent (worldTasks [''a'', ''b'']) = sent worldCard @ new \<and>
      taskPosts new =
        map (\<lambda>i. (namesOf (cwt_tasks (demoCardParams [''a'', ''b''])) ! i, 65535 * (int i + 1)))
          [0..<length (namesOf (cwt_tasks (demoCardParams [''a'', ''b''])))])"
proof -
  let ?ts = "[Some \<lparr>item_id = Some ''t1'', item_isCard = False\<rparr>,
           Some \<lparr>item_id = Some ''t2'', item_isCard = False\<rparr>]"
  have "fst (taskPhase demoSrv ''c9'' (Some [''a'', ''b'']) worldCard) = Inr ?ts"
    by code_simp
  then have h2: "taskPhase demoSrv (cc_id demoCard9) (cwt_tasks (demoCardParams [''a'', ''b''])) worldCard =
     (Inr ?ts, worldTasks [''a'', ''b''])"
    unfolding worldTasks_def by (simp add: prod_eq_iff demoCard9_def demoCardParams_def)
  have ev: "map (\<lambda>i. (namesOf (cwt_tasks (demoCardParams [''a'', ''b''])) ! i, 65535 * (int i + 1)))
     [0..<length (namesOf (cwt_tasks (demoCardParams [''a'', ''b''])))] =
     [(''a'', 65535), (''b'', 131070)]"
    by code_simp
  from task_positions[OF demo_createCard h2] demo_createCard[of "[''a'', ''b'']"] h2 ev
  show ?thesis by blast
qed

theorem no_rollback_witness:
  "createCard demoSrv (cardOptions (demoCardParams [''a'', ''b'', ''c''])) world0 =
     (Inr demoCard9, worldCard) \<and>
   taskPhase demoSrv (cc_id demoCard9) (cwt_tasks (demoCardParams [''a'', ''b'', ''c''])) worldCard =
     (Inl taskFailure, worldTasks [''a'', ''b'', ''c'']) \<and>
   createCardWithTasks demoSrv (demoCardParams [''a'', ''b'', ''c'']) world0 =
     (Inl taskFailure, worldTasks [''a'', ''b'', ''c'']) \<and>
   (\<exists>answer new k.
       sent worldCard =
         sent world0 @ [(cardRequest (cardOptions (demoCardParams [''a'', ''b'', ''c''])), Inr answer)] \<and>
       parseCardResponse answer = Some demoCard9 \<and>
       sent (worldTasks [''a'', ''b'', ''c'']) = sent worldCard @ new \<and> noDelete new \<and>
       k \<le> length (namesOf (cwt_tasks (demoCardParams [''a'', ''b'', ''c'']))) \<and>
       taskPosts new = expectedTasks (namesOf (cwt_tasks (demoCardParams [''a'', ''b'', ''c'']))) 0 k) \<and>
   taskPosts (drop (length (sent worldCard)) (sent (worldTasks [''a'', ''b'', ''c'']))) =
     [(''a'', 65535), (''b'', 131070)]"
proof -
  let ?P = "demoCardParams [''a'', ''b'', ''c'']"
  have "fst (taskPhase demoSrv ''c9'' (Some [''a'', ''b'', ''c'']) worldCard) = Inl taskFailure"
    by code_simp
  then have h2: "taskPhase demoSrv (cc_id demoCard9) (cwt_tasks ?P) worldCard =
     (Inl taskFailure, worldTasks [''a'', ''b'', ''c''])"
    unfolding worldTasks_def by (simp add: prod_eq_iff demoCard9_def demoCardParams_def)
  note nr = no_rollback[OF demo_createCard, of "[''a'', ''b'', ''c'']" taskFailure
      "worldTasks [''a'', ''b'', ''c'']"]
  from nr h2 have call: "createCardWithTasks demoSrv ?P world0 =
     (Inl taskFailure, worldTasks [''a'', ''b'', ''c''])"
    by blast
  have ev: "taskPosts (drop (length (sent worldCard)) (sent (worldTasks [''a'', ''b'', ''c'']))) =
     [(''a'', 65535), (''b'', 131070)]"
    by code_simp
  from nr call h2 demo_createCard[of "[''a'', ''b'', ''c'']"] ev show ?thesis by blast
qed

end
